theory Spec2Isabelle
  imports Main "HOL-Library.Word"
begin

unbundle bit_operations_syntax

section \<open>Strings and bytes\<close>

text \<open>
  A JavaScript string is a sequence of UTF-16 code units, a \<open>Uint8Array\<close> a sequence of
  bytes. \<open>js\<close> writes an ASCII literal as a JavaScript string.
\<close>

type_synonym u8 = "8 word"
type_synonym u32 = "32 word"
type_synonym bytes = "u8 list"
type_synonym jsstring = "16 word list"

definition js :: "string \<Rightarrow> jsstring" where
  "js s = map (\<lambda>c. of_nat (of_char c)) s"

text \<open>
  Surrogates. A high surrogate followed by a low one is a pair; any other surrogate is
  unpaired. \<open>scrub\<close> is the string after a round through UTF-8 (encoded by
  \<open>Buffer\<close>, decoded again): every unpaired surrogate has become U+FFFD.
\<close>

definition is_high_surrogate :: "16 word \<Rightarrow> bool" where
  "is_high_surrogate c \<longleftrightarrow> 0xD800 \<le> c \<and> c \<le> 0xDBFF"

definition is_low_surrogate :: "16 word \<Rightarrow> bool" where
  "is_low_surrogate c \<longleftrightarrow> 0xDC00 \<le> c \<and> c \<le> 0xDFFF"

definition is_surrogate :: "16 word \<Rightarrow> bool" where
  "is_surrogate c \<longleftrightarrow> 0xD800 \<le> c \<and> c \<le> 0xDFFF"

fun scrub :: "jsstring \<Rightarrow> jsstring" where
  "scrub [] = []"
| "scrub [c] = [if is_surrogate c then 0xFFFD else c]"
| "scrub (c # d # cs) =
     (if is_high_surrogate c \<and> is_low_surrogate d then c # d # scrub cs
      else (if is_surrogate c then 0xFFFD else c) # scrub (d # cs))"

fun well_formed :: "jsstring \<Rightarrow> bool" where
  "well_formed [] = True"
| "well_formed [c] = (\<not> is_surrogate c)"
| "well_formed (c # d # cs) =
     (if is_high_surrogate c \<and> is_low_surrogate d then well_formed cs
      else \<not> is_surrogate c \<and> well_formed (d # cs))"

section \<open>SHA-256 (node:crypto createHash)\<close>

text \<open>
  \<open>createHash("sha256")\<close> is the hash function of FIPS 180-4: 32-bit words, big-endian,
  64 rounds per 64-byte block.
\<close>

definition rotr :: "nat \<Rightarrow> u32 \<Rightarrow> u32" where
  "rotr n x = drop_bit n x OR push_bit (32 - n) x"

definition Ch :: "u32 \<Rightarrow> u32 \<Rightarrow> u32 \<Rightarrow> u32" where
  "Ch x y z = (x AND y) XOR (NOT x AND z)"

definition Maj :: "u32 \<Rightarrow> u32 \<Rightarrow> u32 \<Rightarrow> u32" where
  "Maj x y z = (x AND y) XOR (x AND z) XOR (y AND z)"

definition bsig0 :: "u32 \<Rightarrow> u32" where
  "bsig0 x = rotr 2 x XOR rotr 13 x XOR rotr 22 x"

definition bsig1 :: "u32 \<Rightarrow> u32" where
  "bsig1 x = rotr 6 x XOR rotr 11 x XOR rotr 25 x"

definition ssig0 :: "u32 \<Rightarrow> u32" where
  "ssig0 x = rotr 7 x XOR rotr 18 x XOR drop_bit 3 x"

definition ssig1 :: "u32 \<Rightarrow> u32" where
  "ssig1 x = rotr 17 x XOR rotr 19 x XOR drop_bit 10 x"

text \<open>
  The round constants are the first 32 bits of the fractional parts of the cube roots of
  the first 64 primes, the initial hash value those of the square roots of the first 8
  (FIPS 180-4, 4.2.2 and 5.3.3). \<open>iroot k n\<close> is the integer \<open>k\<close>-th root of
  \<open>n\<close> below \<open>2 ^ 40\<close>, found bit by bit from the top; there are 64 primes below 312.
\<close>

definition is_prime :: "nat \<Rightarrow> bool" where
  "is_prime n \<longleftrightarrow> 1 < n \<and> (\<forall>d \<in> {2..<n}. \<not> d dvd n)"

definition first_primes :: "nat \<Rightarrow> nat list" where
  "first_primes k = take k (filter is_prime [2..<312])"

definition root_step :: "nat \<Rightarrow> nat \<Rightarrow> nat \<Rightarrow> nat \<Rightarrow> nat" where
  "root_step k n x i = (if (x + 2 ^ i) ^ k \<le> n then x + 2 ^ i else x)"

definition iroot :: "nat \<Rightarrow> nat \<Rightarrow> nat" where
  "iroot k n = foldl (root_step k n) 0 (rev [0..<40])"

definition sha256_K :: "u32 list" where
  "sha256_K = map (\<lambda>p. of_nat (iroot 3 (p * 2 ^ 96))) (first_primes 64)"

definition sha256_H0 :: "u32 list" where
  "sha256_H0 = map (\<lambda>p. of_nat (iroot 2 (p * 2 ^ 64))) (first_primes 8)"

fun be32 :: "bytes \<Rightarrow> u32 list" where
  "be32 (a # b # c # d # r) =
     (push_bit 24 (ucast a) OR push_bit 16 (ucast b) OR push_bit 8 (ucast c) OR ucast d) # be32 r"
| "be32 _ = []"

text \<open>
  The message schedule is kept as the window of the next 16 words, oldest first; a round
  consumes the head and appends the word 16 places later.
\<close>

fun next_w :: "u32 list \<Rightarrow> u32 list" where
  "next_w [w0, w1, w2, w3, w4, w5, w6, w7, w8, w9, w10, w11, w12, w13, w14, w15] =
     [w1, w2, w3, w4, w5, w6, w7, w8, w9, w10, w11, w12, w13, w14, w15,
      ssig1 w14 + w9 + ssig0 w1 + w0]"
| "next_w ws = ws"

fun sha_vars :: "u32 \<Rightarrow> u32 \<Rightarrow> u32 list \<Rightarrow> u32 list" where
  "sha_vars t1 t2 [a, b, c, d, e, f, g, h] = [t1 + t2, a, b, c, d + t1, e, f, g]"
| "sha_vars t1 t2 vs = vs"

fun sha_t1 :: "u32 list \<Rightarrow> u32 \<Rightarrow> u32 \<Rightarrow> u32" where
  "sha_t1 [a, b, c, d, e, f, g, h] k w = h + bsig1 e + Ch e f g + k + w"
| "sha_t1 vs k w = 0"

fun sha_t2 :: "u32 list \<Rightarrow> u32" where
  "sha_t2 [a, b, c, d, e, f, g, h] = bsig0 a + Maj a b c"
| "sha_t2 vs = 0"

fun sha_round :: "u32 list \<times> u32 list \<Rightarrow> u32 \<Rightarrow> u32 list \<times> u32 list" where
  "sha_round (vs, ws) k = (sha_vars (sha_t1 vs k (hd ws)) (sha_t2 vs) vs, next_w ws)"

definition compress :: "u32 list \<Rightarrow> bytes \<Rightarrow> u32 list" where
  "compress hs blk = map2 (+) hs (fst (foldl sha_round (hs, be32 blk) sha256_K))"

definition be32_bytes :: "u32 \<Rightarrow> bytes" where
  "be32_bytes w = [ucast (drop_bit 24 w), ucast (drop_bit 16 w), ucast (drop_bit 8 w), ucast w]"

definition be64_bytes :: "64 word \<Rightarrow> bytes" where
  "be64_bytes w = [ucast (drop_bit 56 w), ucast (drop_bit 48 w), ucast (drop_bit 40 w),
     ucast (drop_bit 32 w), ucast (drop_bit 24 w), ucast (drop_bit 16 w), ucast (drop_bit 8 w), ucast w]"

definition sha_pad :: "bytes \<Rightarrow> bytes" where
  "sha_pad m =
     m @ [0x80] @ replicate ((119 - length m mod 64) mod 64) 0 @ be64_bytes (8 * of_nat (length m))"

text \<open>The first \<open>n\<close> pieces of \<open>k\<close> elements of a list.\<close>

fun chunks :: "nat \<Rightarrow> nat \<Rightarrow> 'a list \<Rightarrow> 'a list list" where
  "chunks 0 k xs = []"
| "chunks (Suc n) k xs = take k xs # chunks n k (drop k xs)"

definition sha256 :: "bytes \<Rightarrow> bytes" where
  "sha256 m =
     concat (map be32_bytes
       (foldl compress sha256_H0 (chunks (length (sha_pad m) div 64) 64 (sha_pad m))))"

text \<open>\<open>digest("hex")\<close>: two lower-case digits per byte.\<close>

definition hexdigit :: "nat \<Rightarrow> 16 word" where
  "hexdigit n = js ''0123456789abcdef'' ! (n mod 16)"

definition hex :: "bytes \<Rightarrow> jsstring" where
  "hex bs = concat (map (\<lambda>b. [hexdigit (unat b div 16), hexdigit (unat b mod 16)]) bs)"

section \<open>AES-256 (node:crypto aes-256-gcm)\<close>

text \<open>
  The block cipher of FIPS 197 with a 256-bit key: 14 rounds over a state of 16 bytes kept
  in column order.
\<close>

definition sbox :: "u8 list" where
  "sbox = [
   0x63, 0x7c, 0x77, 0x7b, 0xf2, 0x6b, 0x6f, 0xc5, 0x30, 0x01, 0x67, 0x2b, 0xfe, 0xd7, 0xab, 0x76,
   0xca, 0x82, 0xc9, 0x7d, 0xfa, 0x59, 0x47, 0xf0, 0xad, 0xd4, 0xa2, 0xaf, 0x9c, 0xa4, 0x72, 0xc0,
   0xb7, 0xfd, 0x93, 0x26, 0x36, 0x3f, 0xf7, 0xcc, 0x34, 0xa5, 0xe5, 0xf1, 0x71, 0xd8, 0x31, 0x15,
   0x04, 0xc7, 0x23, 0xc3, 0x18, 0x96, 0x05, 0x9a, 0x07, 0x12, 0x80, 0xe2, 0xeb, 0x27, 0xb2, 0x75,
   0x09, 0x83, 0x2c, 0x1a, 0x1b, 0x6e, 0x5a, 0xa0, 0x52, 0x3b, 0xd6, 0xb3, 0x29, 0xe3, 0x2f, 0x84,
   0x53, 0xd1, 0x00, 0xed, 0x20, 0xfc, 0xb1, 0x5b, 0x6a, 0xcb, 0xbe, 0x39, 0x4a, 0x4c, 0x58, 0xcf,
   0xd0, 0xef, 0xaa, 0xfb, 0x43, 0x4d, 0x33, 0x85, 0x45, 0xf9, 0x02, 0x7f, 0x50, 0x3c, 0x9f, 0xa8,
   0x51, 0xa3, 0x40, 0x8f, 0x92, 0x9d, 0x38, 0xf5, 0xbc, 0xb6, 0xda, 0x21, 0x10, 0xff, 0xf3, 0xd2,
   0xcd, 0x0c, 0x13, 0xec, 0x5f, 0x97, 0x44, 0x17, 0xc4, 0xa7, 0x7e, 0x3d, 0x64, 0x5d, 0x19, 0x73,
   0x60, 0x81, 0x4f, 0xdc, 0x22, 0x2a, 0x90, 0x88, 0x46, 0xee, 0xb8, 0x14, 0xde, 0x5e, 0x0b, 0xdb,
   0xe0, 0x32, 0x3a, 0x0a, 0x49, 0x06, 0x24, 0x5c, 0xc2, 0xd3, 0xac, 0x62, 0x91, 0x95, 0xe4, 0x79,
   0xe7, 0xc8, 0x37, 0x6d, 0x8d, 0xd5, 0x4e, 0xa9, 0x6c, 0x56, 0xf4, 0xea, 0x65, 0x7a, 0xae, 0x08,
   0xba, 0x78, 0x25, 0x2e, 0x1c, 0xa6, 0xb4, 0xc6, 0xe8, 0xdd, 0x74, 0x1f, 0x4b, 0xbd, 0x8b, 0x8a,
   0x70, 0x3e, 0xb5, 0x66, 0x48, 0x03, 0xf6, 0x0e, 0x61, 0x35, 0x57, 0xb9, 0x86, 0xc1, 0x1d, 0x9e,
   0xe1, 0xf8, 0x98, 0x11, 0x69, 0xd9, 0x8e, 0x94, 0x9b, 0x1e, 0x87, 0xe9, 0xce, 0x55, 0x28, 0xdf,
   0x8c, 0xa1, 0x89, 0x0d, 0xbf, 0xe6, 0x42, 0x68, 0x41, 0x99, 0x2d, 0x0f, 0xb0, 0x54, 0xbb, 0x16]"

definition sub_byte :: "u8 \<Rightarrow> u8" where
  "sub_byte b = sbox ! unat b"

definition xtime :: "u8 \<Rightarrow> u8" where
  "xtime b = (if bit b 7 then push_bit 1 b XOR 0x1B else push_bit 1 b)"

definition xor_bytes :: "bytes \<Rightarrow> bytes \<Rightarrow> bytes" where
  "xor_bytes xs ys = map2 (XOR) xs ys"

fun shift_rows :: "bytes \<Rightarrow> bytes" where
  "shift_rows [s0, s1, s2, s3, s4, s5, s6, s7, s8, s9, s10, s11, s12, s13, s14, s15] =
     [s0, s5, s10, s15, s4, s9, s14, s3, s8, s13, s2, s7, s12, s1, s6, s11]"
| "shift_rows s = s"

fun mix_columns :: "bytes \<Rightarrow> bytes" where
  "mix_columns (a0 # a1 # a2 # a3 # r) =
     [xtime a0 XOR (xtime a1 XOR a1) XOR a2 XOR a3,
      a0 XOR xtime a1 XOR (xtime a2 XOR a2) XOR a3,
      a0 XOR a1 XOR xtime a2 XOR (xtime a3 XOR a3),
      (xtime a0 XOR a0) XOR a1 XOR a2 XOR xtime a3] @ mix_columns r"
| "mix_columns r = []"

text \<open>
  Key expansion for Nk = 8: the schedule is built newest word first; \<open>i\<close> is the index of
  the word to add and \<open>rc\<close> the round constant.
\<close>

definition sub_word :: "bytes \<Rightarrow> bytes" where
  "sub_word w = map sub_byte w"

definition rot_word :: "bytes \<Rightarrow> bytes" where
  "rot_word w = tl w @ [hd w]"

fun expand :: "nat \<Rightarrow> nat \<Rightarrow> u8 \<Rightarrow> bytes list \<Rightarrow> bytes list" where
  "expand 0 i rc ws = ws"
| "expand (Suc n) i rc ws =
     (let t = hd ws in
      if i mod 8 = 0
        then expand n (Suc i) (xtime rc)
               (xor_bytes (ws ! 7) (xor_bytes (sub_word (rot_word t)) [rc, 0, 0, 0]) # ws)
      else if i mod 8 = 4
        then expand n (Suc i) rc (xor_bytes (ws ! 7) (sub_word t) # ws)
      else expand n (Suc i) rc (xor_bytes (ws ! 7) t # ws))"

definition key_words :: "bytes \<Rightarrow> bytes list" where
  "key_words key = rev (expand 52 8 1 (rev (chunks 8 4 key)))"

definition round_keys :: "bytes \<Rightarrow> bytes list" where
  "round_keys key = map concat (chunks 15 4 (key_words key))"

definition aes_round :: "bytes \<Rightarrow> bytes \<Rightarrow> bytes" where
  "aes_round s rk = xor_bytes (mix_columns (shift_rows (map sub_byte s))) rk"

definition aes_final_round :: "bytes \<Rightarrow> bytes \<Rightarrow> bytes" where
  "aes_final_round s rk = xor_bytes (shift_rows (map sub_byte s)) rk"

definition aes256_encrypt_block :: "bytes \<Rightarrow> bytes \<Rightarrow> bytes" where
  "aes256_encrypt_block key blk =
     (let rks = round_keys key in
      aes_final_round (foldl aes_round (xor_bytes blk (hd rks)) (take 13 (tl rks))) (last rks))"

section \<open>Galois/Counter mode\<close>

text \<open>
  NIST SP 800-38D. A block is a 128-bit word whose most significant byte is the first
  byte; bit \<open>i\<close> of the standard is bit \<open>127 - i\<close> of the word.
\<close>

type_synonym block = "128 word"

definition block_of_bytes :: "bytes \<Rightarrow> block" where
  "block_of_bytes bs = foldl (\<lambda>acc b. push_bit 8 acc OR ucast b) 0 (take 16 (bs @ replicate 16 0))"

definition bytes_of_block :: "block \<Rightarrow> bytes" where
  "bytes_of_block x = map (\<lambda>i. ucast (drop_bit (8 * (15 - i)) x)) [0..<16]"

definition gf_step :: "block \<Rightarrow> block \<times> block \<Rightarrow> nat \<Rightarrow> block \<times> block" where
  "gf_step x zv i =
     (case zv of (z, v) \<Rightarrow>
        (if bit x (127 - i) then z XOR v else z,
         if bit v 0 then drop_bit 1 v XOR push_bit 120 0xE1 else drop_bit 1 v))"

definition gf_mult :: "block \<Rightarrow> block \<Rightarrow> block" where
  "gf_mult x y = fst (foldl (gf_step x) (0, y) [0..<128])"

definition ghash :: "block \<Rightarrow> block list \<Rightarrow> block" where
  "ghash h xs = foldl (\<lambda>y x. gf_mult (y XOR x) h) 0 xs"

definition blocks_of :: "bytes \<Rightarrow> block list" where
  "blocks_of bs = map block_of_bytes (chunks ((length bs + 15) div 16) 16 bs)"

definition len_block :: "nat \<Rightarrow> nat \<Rightarrow> block" where
  "len_block a c = push_bit 64 (of_nat (8 * a)) OR of_nat (8 * c)"

definition inc32 :: "block \<Rightarrow> block" where
  "inc32 cb = (cb AND NOT (mask 32)) OR ((cb + 1) AND mask 32)"

text \<open>The key stream of \<open>n\<close> counter blocks from \<open>cb\<close> on.\<close>

fun keystream :: "bytes \<Rightarrow> block \<Rightarrow> nat \<Rightarrow> bytes" where
  "keystream key cb 0 = []"
| "keystream key cb (Suc n) =
     aes256_encrypt_block key (bytes_of_block cb) @ keystream key (inc32 cb) n"

definition gctr :: "bytes \<Rightarrow> block \<Rightarrow> bytes \<Rightarrow> bytes" where
  "gctr key icb xs = xor_bytes xs (keystream key icb ((length xs + 15) div 16))"

definition hash_subkey :: "bytes \<Rightarrow> block" where
  "hash_subkey key = block_of_bytes (aes256_encrypt_block key (replicate 16 0))"

definition gcm_j0 :: "bytes \<Rightarrow> bytes \<Rightarrow> block" where
  "gcm_j0 key iv =
     (if length iv = 12 then block_of_bytes (iv @ [0, 0, 0, 1])
      else ghash (hash_subkey key) (blocks_of iv @ [len_block 0 (length iv)]))"

definition gcm_tag :: "bytes \<Rightarrow> bytes \<Rightarrow> bytes \<Rightarrow> bytes" where
  "gcm_tag key iv c =
     gctr key (gcm_j0 key iv)
       (bytes_of_block (ghash (hash_subkey key) (blocks_of c @ [len_block 0 (length c)])))"

definition gcm_crypt :: "bytes \<Rightarrow> bytes \<Rightarrow> bytes \<Rightarrow> bytes" where
  "gcm_crypt key iv xs = gctr key (inc32 (gcm_j0 key iv)) xs"

section \<open>Server: the store (db/index.ts, db/schema.ts)\<close>

text \<open>
  The tables the skill routes use. \<open>users\<close> holds the ids of the accounts; \<open>skills\<close>
  has a generated primary key, a foreign key to \<open>users\<close>, a unique index on
  (userId, skillKey) and a nullable current-hash pointer; \<open>skill_versions\<close> has the primary
  key (skillId, hash) and a foreign key to \<open>skills\<close>. Ids are natural numbers (the
  generated uuid of a new skill is the next unused one), and so are timestamps.
\<close>

record skill_row =
  sk_id :: nat
  sk_userId :: nat
  sk_skillKey :: jsstring
  sk_currentHash :: "jsstring option"
  sk_createdAt :: nat
  sk_updatedAt :: nat

record version_row =
  ver_hash :: jsstring
  ver_skillId :: nat
  ver_encryptedData :: jsstring
  ver_iv :: jsstring
  ver_tag :: jsstring
  ver_parentHash :: "jsstring option"
  ver_message :: "jsstring option"
  ver_createdAt :: nat

record db =
  users :: "nat list"
  skills :: "skill_row list"
  skillVersions :: "version_row list"
  nextId :: nat

text \<open>
  The errors a statement raises here, by SQLSTATE: 22021 (a text parameter holds U+0000),
  54000 (a key too long for an index entry), 23505 (unique index) and 23503 (foreign key).
  The database is taken to be reachable, and the user id to be the uuid that the server
  itself put into the token.
\<close>

datatype db_error =
  InvalidByteSequence | ProgramLimitExceeded | UniqueViolation | ForeignKeyViolation

text \<open>
  Both text keys are indexed (the unique index of \<open>skills\<close>, the primary key of
  \<open>skill_versions\<close>), and an index refuses an entry above its size limit. Which strings
  fit is a matter of the database (a long key is compressed first), so it is a parameter of
  the statements that insert.
\<close>

type_synonym index_limit = "jsstring \<Rightarrow> bool"

text \<open>
  A string parameter reaches a \<open>text\<close> column or comparison encoded as UTF-8: the
  statement is refused when the string holds U+0000, and an unpaired surrogate arrives as
  U+FFFD.
\<close>

definition pg_text :: "jsstring \<Rightarrow> db_error + jsstring" where
  "pg_text s = (if 0 \<in> set s then Inl InvalidByteSequence else Inr (scrub s))"

definition pg_text_opt :: "jsstring option \<Rightarrow> db_error + jsstring option" where
  "pg_text_opt s = (case s of None \<Rightarrow> Inr None
                   | Some x \<Rightarrow> (case pg_text x of Inl e \<Rightarrow> Inl e | Inr y \<Rightarrow> Inr (Some y)))"

definition and_then :: "'e + 'a \<Rightarrow> ('a \<Rightarrow> 'e + 'b) \<Rightarrow> 'e + 'b" where
  "and_then r f = (case r of Inl e \<Rightarrow> Inl e | Inr x \<Rightarrow> f x)"

definition empty_db :: db where
  "empty_db = \<lparr>users = [], skills = [], skillVersions = [], nextId = 0\<rparr>"

text \<open>The rows a query selects, on text that has reached the database.\<close>

definition skill_at :: "db \<Rightarrow> nat \<Rightarrow> jsstring \<Rightarrow> skill_row option" where
  "skill_at d u k = find (\<lambda>s. sk_userId s = u \<and> sk_skillKey s = k) (skills d)"

definition is_version :: "nat \<Rightarrow> jsstring \<Rightarrow> version_row \<Rightarrow> bool" where
  "is_version skillId h v \<longleftrightarrow> ver_skillId v = skillId \<and> ver_hash v = h"

definition version_at :: "db \<Rightarrow> nat \<Rightarrow> jsstring \<Rightarrow> version_row option" where
  "version_at d skillId h = find (is_version skillId h) (skillVersions d)"

definition findSkillByKey :: "db \<Rightarrow> nat \<Rightarrow> jsstring \<Rightarrow> db_error + skill_row option" where
  "findSkillByKey d userId skillKey = and_then (pg_text skillKey) (\<lambda>k. Inr (skill_at d userId k))"

text \<open>
  \<open>createSkill\<close>: the insert raises when the key does not fit the index, or when the
  unique index or the foreign key to \<open>users\<close> is violated.
\<close>

definition createSkill ::
  "index_limit \<Rightarrow> nat \<Rightarrow> db \<Rightarrow> nat \<Rightarrow> jsstring \<Rightarrow> db_error + db \<times> skill_row" where
  "createSkill fits now d userId skillKey =
     and_then (pg_text skillKey) (\<lambda>k.
       if \<not> fits k then Inl ProgramLimitExceeded
       else if skill_at d userId k \<noteq> None then Inl UniqueViolation
       else if userId \<notin> set (users d) then Inl ForeignKeyViolation
       else
         let row = \<lparr>sk_id = nextId d, sk_userId = userId, sk_skillKey = k, sk_currentHash = None,
                      sk_createdAt = now, sk_updatedAt = now\<rparr>
         in Inr (d\<lparr>skills := skills d @ [row], nextId := Suc (nextId d)\<rparr>, row))"

definition set_pointer :: "nat \<Rightarrow> nat \<Rightarrow> jsstring \<Rightarrow> skill_row \<Rightarrow> skill_row" where
  "set_pointer now skillId h s =
     (if sk_id s = skillId then s\<lparr>sk_currentHash := Some h, sk_updatedAt := now\<rparr> else s)"

definition updateSkillCurrentHash :: "nat \<Rightarrow> db \<Rightarrow> nat \<Rightarrow> jsstring \<Rightarrow> db_error + db" where
  "updateSkillCurrentHash now d skillId hash =
     and_then (pg_text hash) (\<lambda>h. Inr (d\<lparr>skills := map (set_pointer now skillId h) (skills d)\<rparr>))"

definition findSkillVersion :: "db \<Rightarrow> nat \<Rightarrow> jsstring \<Rightarrow> db_error + version_row option" where
  "findSkillVersion d skillId hash = and_then (pg_text hash) (\<lambda>h. Inr (version_at d skillId h))"

text \<open>
  \<open>createSkillVersion\<close>: insert, and on a conflict on (skillId, hash) update
  \<open>encryptedData\<close>, \<open>iv\<close> and \<open>tag\<close> of the stored row (\<open>onConflictDoUpdate\<close> with
  \<open>set: { encryptedData, iv, tag }\<close>); the row is returned. All seven values are
  parameters of the one statement.
\<close>

definition set_envelope :: "jsstring \<Rightarrow> jsstring \<Rightarrow> jsstring \<Rightarrow> version_row \<Rightarrow> version_row" where
  "set_envelope e i g v = v\<lparr>ver_encryptedData := e, ver_iv := i, ver_tag := g\<rparr>"

definition upsert_version ::
  "index_limit \<Rightarrow> nat \<Rightarrow> db \<Rightarrow> nat \<Rightarrow> jsstring \<Rightarrow> jsstring \<Rightarrow> jsstring \<Rightarrow> jsstring \<Rightarrow> jsstring option
     \<Rightarrow> jsstring option \<Rightarrow> db_error + db \<times> version_row" where
  "upsert_version fits now d skillId h e i g p m =
     (case version_at d skillId h of
        Some old \<Rightarrow>
          Inr (d\<lparr>skillVersions :=
                   map (\<lambda>v. if is_version skillId h v then set_envelope e i g v else v)
                     (skillVersions d)\<rparr>,
               set_envelope e i g old)
      | None \<Rightarrow>
          if \<not> fits h then Inl ProgramLimitExceeded
          else if \<not> (\<exists>s \<in> set (skills d). sk_id s = skillId) then Inl ForeignKeyViolation
          else
            let row = \<lparr>ver_hash = h, ver_skillId = skillId, ver_encryptedData = e, ver_iv = i,
                         ver_tag = g, ver_parentHash = p, ver_message = m, ver_createdAt = now\<rparr>
            in Inr (d\<lparr>skillVersions := skillVersions d @ [row]\<rparr>, row))"

definition createSkillVersion ::
  "index_limit \<Rightarrow> nat \<Rightarrow> db \<Rightarrow> nat \<Rightarrow> jsstring \<Rightarrow> jsstring \<Rightarrow> jsstring \<Rightarrow> jsstring \<Rightarrow> jsstring option
     \<Rightarrow> jsstring option \<Rightarrow> db_error + db \<times> version_row" where
  "createSkillVersion fits now d skillId hash encryptedData iv tag parentHash message =
     and_then (pg_text hash) (\<lambda>h.
     and_then (pg_text encryptedData) (\<lambda>e.
     and_then (pg_text iv) (\<lambda>i.
     and_then (pg_text tag) (\<lambda>g.
     and_then (pg_text_opt parentHash) (\<lambda>p.
     and_then (pg_text_opt message) (\<lambda>m.
       upsert_version fits now d skillId h e i g p m))))))"

section \<open>Server: the skill routes (routes/skills.ts)\<close>

text \<open>
  A reply is the JSON of a 200 answer or a status with an error text. An exception that
  leaves a handler is answered by \<open>onError\<close> of index.ts.
\<close>

datatype 'a response = Ok 'a | Failed nat jsstring

definition internal_error :: "'a response" where
  "internal_error = Failed 500 (js ''Internal server error'')"

record push_body =
  b_hash :: jsstring
  b_encryptedData :: jsstring
  b_iv :: jsstring
  b_tag :: jsstring
  b_message :: "jsstring option"

record push_reply =
  pr_skillId :: nat
  pr_hash :: jsstring
  pr_parentHash :: "jsstring option"
  pr_createdAt :: nat

text \<open>
  The first half of \<open>POST /skills/:skillKey/versions\<close>, for the user of a verified token:
  validate the body, find or create the skill, read the parent hash off the skill's
  pointer and create the version. The fields of the body are strings; a missing field and
  an empty one are both falsy, and are the empty string here. There is no transaction:
  what a statement has written stays when a later one fails.
\<close>

definition push_create ::
  "index_limit \<Rightarrow> nat \<Rightarrow> nat \<Rightarrow> db \<Rightarrow> nat \<Rightarrow> jsstring \<Rightarrow> push_body
     \<Rightarrow> db \<times> (skill_row \<times> version_row) response" where
  "push_create fits tc tv d userId skillKey body =
     (if b_hash body = [] \<or> b_encryptedData body = [] \<or> b_iv body = [] \<or> b_tag body = []
      then (d, Failed 400 (js ''Missing required fields''))
      else
        (case findSkillByKey d userId skillKey of
           Inl e \<Rightarrow> (d, internal_error)
         | Inr found \<Rightarrow>
             (case (case found of Some s \<Rightarrow> Inr (d, s)
                                | None \<Rightarrow> createSkill fits tc d userId skillKey) of
                Inl e \<Rightarrow> (d, internal_error)
              | Inr (d1, skill) \<Rightarrow>
                  (let parentHash = sk_currentHash skill in
                   (case createSkillVersion fits tv d1 (sk_id skill) (b_hash body)
                           (b_encryptedData body) (b_iv body) (b_tag body) parentHash
                           (b_message body) of
                      Inl e \<Rightarrow> (d1, internal_error)
                    | Inr (d2, version) \<Rightarrow> (d2, Ok (skill, version)))))))"

text \<open>The whole route: after the version is created the pointer is moved to the pushed hash.\<close>

definition post_skill_version ::
  "index_limit \<Rightarrow> nat \<Rightarrow> nat \<Rightarrow> nat \<Rightarrow> db \<Rightarrow> nat \<Rightarrow> jsstring \<Rightarrow> push_body
     \<Rightarrow> db \<times> push_reply response" where
  "post_skill_version fits tc tv tu d userId skillKey body =
     (case push_create fits tc tv d userId skillKey body of
        (d2, Failed st msg) \<Rightarrow> (d2, Failed st msg)
      | (d2, Ok (skill, version)) \<Rightarrow>
          (case updateSkillCurrentHash tu d2 (sk_id skill) (b_hash body) of
             Inl e \<Rightarrow> (d2, internal_error)
           | Inr d3 \<Rightarrow>
               (d3, Ok \<lparr>pr_skillId = sk_id skill, pr_hash = ver_hash version,
                        pr_parentHash = ver_parentHash version,
                        pr_createdAt = ver_createdAt version\<rparr>)))"

record skill_reply =
  sr_skillKey :: jsstring
  sr_skillId :: nat
  sr_hash :: jsstring
  sr_encryptedData :: jsstring
  sr_iv :: jsstring
  sr_tag :: jsstring
  sr_parentHash :: "jsstring option"
  sr_message :: "jsstring option"
  sr_createdAt :: nat

text \<open>\<open>GET /skills/:skillKey\<close>: the version the skill's pointer names.\<close>

definition get_skill :: "db \<Rightarrow> nat \<Rightarrow> jsstring \<Rightarrow> skill_reply response" where
  "get_skill d userId skillKey =
     (case findSkillByKey d userId skillKey of
        Inl e \<Rightarrow> internal_error
      | Inr None \<Rightarrow> Failed 404 (js ''Skill not found'')
      | Inr (Some skill) \<Rightarrow>
          (case sk_currentHash skill of
             None \<Rightarrow> Failed 404 (js ''Skill has no versions'')
           | Some h \<Rightarrow>
               if h = [] then Failed 404 (js ''Skill has no versions'')
               else (case findSkillVersion d (sk_id skill) h of
                 Inl e \<Rightarrow> internal_error
               | Inr None \<Rightarrow> Failed 404 (js ''Current version not found'')
               | Inr (Some v) \<Rightarrow>
                   Ok \<lparr>sr_skillKey = skillKey, sr_skillId = sk_id skill, sr_hash = ver_hash v,
                       sr_encryptedData = ver_encryptedData v, sr_iv = ver_iv v,
                       sr_tag = ver_tag v, sr_parentHash = ver_parentHash v,
                       sr_message = ver_message v, sr_createdAt = ver_createdAt v\<rparr>)))"

section \<open>Well-formed stores\<close>

text \<open>
  The constraints of the schema (generated ids are below the next one, the foreign keys,
  the primary keys and the unique index), and what the routes keep besides: a pointer
  names a stored version of its skill.
\<close>

definition text_ok :: "jsstring \<Rightarrow> bool" where
  "text_ok s \<longleftrightarrow> 0 \<notin> set s \<and> well_formed s"

definition text_opt_ok :: "jsstring option \<Rightarrow> bool" where
  "text_opt_ok s = (case s of None \<Rightarrow> True | Some x \<Rightarrow> text_ok x)"

definition skill_text_ok :: "skill_row \<Rightarrow> bool" where
  "skill_text_ok s \<longleftrightarrow> text_ok (sk_skillKey s) \<and> text_opt_ok (sk_currentHash s)"

definition version_text_ok :: "version_row \<Rightarrow> bool" where
  "version_text_ok v \<longleftrightarrow>
     text_ok (ver_hash v) \<and> text_ok (ver_encryptedData v) \<and> text_ok (ver_iv v) \<and>
     text_ok (ver_tag v) \<and> text_opt_ok (ver_parentHash v) \<and> text_opt_ok (ver_message v)"

definition sk_key :: "skill_row \<Rightarrow> nat \<times> jsstring" where
  "sk_key s = (sk_userId s, sk_skillKey s)"

definition ver_key :: "version_row \<Rightarrow> nat \<times> jsstring" where
  "ver_key v = (ver_skillId v, ver_hash v)"

definition pointer :: "skill_row \<Rightarrow> (nat \<times> jsstring) list" where
  "pointer s = (case sk_currentHash s of None \<Rightarrow> [] | Some h \<Rightarrow> [(sk_id s, h)])"

definition db_ok :: "db \<Rightarrow> bool" where
  "db_ok d \<longleftrightarrow>
     list_all (\<lambda>i. i < nextId d) (map sk_id (skills d)) \<and>
     set (map sk_userId (skills d)) \<subseteq> set (users d) \<and>
     set (map ver_skillId (skillVersions d)) \<subseteq> set (map sk_id (skills d)) \<and>
     distinct (map sk_id (skills d)) \<and>
     distinct (map sk_key (skills d)) \<and>
     distinct (map ver_key (skillVersions d)) \<and>
     set (concat (map pointer (skills d))) \<subseteq> set (map ver_key (skillVersions d)) \<and>
     list_all skill_text_ok (skills d) \<and>
     list_all version_text_ok (skillVersions d)"

text \<open>
  Example stores: an account without skills, and the same account after one push of the
  skill \<open>skill:deploy\<close>.
\<close>

definition new_account_db :: db where
  "new_account_db = \<lparr>users = [7], skills = [], skillVersions = [], nextId = 0\<rparr>"

definition example_db :: db where
  "example_db =
     \<lparr>users = [7],
      skills = [\<lparr>sk_id = 0, sk_userId = 7, sk_skillKey = js ''skill:deploy'',
                 sk_currentHash = Some (js ''0a1b2c3d''), sk_createdAt = 1, sk_updatedAt = 3\<rparr>],
      skillVersions = [\<lparr>ver_hash = js ''0a1b2c3d'', ver_skillId = 0,
                        ver_encryptedData = js ''AAAA'', ver_iv = js ''BBBB'',
                        ver_tag = js ''CCCC'', ver_parentHash = None,
                        ver_message = Some (js ''first''), ver_createdAt = 2\<rparr>],
      nextId = 1\<rparr>"

definition example_body :: push_body where
  "example_body = \<lparr>b_hash = js ''0a1b2c3d'', b_encryptedData = js ''AAAA'', b_iv = js ''BBBB'',
                    b_tag = js ''CCCC'', b_message = Some (js ''first'')\<rparr>"

definition short_keys :: index_limit where
  "short_keys k \<longleftrightarrow> length k \<le> 1000"

definition second_body :: push_body where
  "second_body = \<lparr>b_hash = js ''4e5f6a7b'', b_encryptedData = js ''DDDD'', b_iv = js ''EEEE'',
                   b_tag = js ''FFFF'', b_message = Some (js ''second'')\<rparr>"

section \<open>Text that has reached the database\<close>

lemma high_is_surrogate: "is_high_surrogate c \<Longrightarrow> is_surrogate c"
  using order_trans [of c "0xDBFF" "0xDFFF"]
  by (simp add: is_high_surrogate_def is_surrogate_def)

lemma replacement_plain: "\<not> is_surrogate (0xFFFD :: 16 word)" "(0xFFFD :: 16 word) \<noteq> 0"
  by (simp_all add: is_surrogate_def)

lemma well_formed_Cons: "\<not> is_surrogate c \<Longrightarrow> well_formed (c # xs) = well_formed xs"
  by (cases xs) (auto dest: high_is_surrogate)

lemma scrub_well_formed: "well_formed s \<Longrightarrow> scrub s = s"
  by (induction s rule: scrub.induct) (auto split: if_splits)

lemma well_formed_scrub: "well_formed (scrub s)"
  by (induction s rule: scrub.induct) (auto simp: well_formed_Cons replacement_plain)

lemma zero_scrub: "0 \<notin> set s \<Longrightarrow> 0 \<notin> set (scrub s)"
  by (induction s rule: scrub.induct) (auto simp: replacement_plain)

lemma text_ok_scrub: "0 \<notin> set s \<Longrightarrow> text_ok (scrub s)"
  by (simp add: text_ok_def well_formed_scrub zero_scrub)

lemma pg_text_Inr: "pg_text s = Inr x \<longleftrightarrow> 0 \<notin> set s \<and> x = scrub s"
  by (auto simp: pg_text_def)

lemma pg_text_stored: "text_ok s \<Longrightarrow> pg_text s = Inr s"
  by (simp add: pg_text_def text_ok_def scrub_well_formed)

lemma pg_text_opt_Inr:
  "pg_text_opt s = Inr x \<longleftrightarrow> (\<forall>y. s = Some y \<longrightarrow> 0 \<notin> set y) \<and> x = map_option scrub s"
  by (cases s) (auto simp: pg_text_opt_def pg_text_def)

lemma pg_text_opt_stored: "text_opt_ok s \<Longrightarrow> pg_text_opt s = Inr s"
  by (cases s) (simp_all add: pg_text_opt_def text_opt_ok_def pg_text_stored)

lemma text_opt_ok_scrub: "(\<forall>y. s = Some y \<longrightarrow> 0 \<notin> set y) \<Longrightarrow> text_opt_ok (map_option scrub s)"
  by (cases s) (simp_all add: text_opt_ok_def text_ok_scrub)

lemma and_then_Inr: "and_then r f = Inr y \<longleftrightarrow> (\<exists>x. r = Inr x \<and> f x = Inr y)"
  by (cases r) (simp_all add: and_then_def)

section \<open>Lists with keys\<close>

lemma find_None_filter: "find P xs = None \<Longrightarrow> filter P xs = []"
  by (induction xs) (auto split: if_splits)

lemma find_append_new: "find P xs = None \<Longrightarrow> P x \<Longrightarrow> find P (xs @ [x]) = Some x"
  by (induction xs) (auto split: if_splits)

lemma find_map_upd:
  assumes "\<And>x. P (f x) = P x"
  shows "find P (map (\<lambda>x. if Q x then f x else x) xs) = map_option (\<lambda>x. if Q x then f x else x) (find P xs)"
  using assms by (induction xs) auto

lemma filter_map_upd:
  assumes "\<And>x. P (f x) = P x"
  shows "filter P (map (\<lambda>x. if Q x then f x else x) xs) = map (\<lambda>x. if Q x then f x else x) (filter P xs)"
  using assms by (induction xs) auto

lemma map_upd_key:
  assumes "\<And>x. key (f x) = key x"
  shows "map key (map (\<lambda>x. if P x then f x else x) xs) = map key xs"
  by (induction xs) (auto simp: assms)

lemma find_Some_set: "find P xs = Some x \<Longrightarrow> x \<in> set xs \<and> P x"
  by (induction xs) (auto split: if_splits)

lemma find_None_iff2: "find P xs = None \<longleftrightarrow> (\<forall>x \<in> set xs. \<not> P x)"
  by (induction xs) auto

lemma find_distinct_filter:
  "distinct (map key xs) \<Longrightarrow> find (\<lambda>x. key x = k) xs = Some y \<Longrightarrow> filter (\<lambda>x. key x = k) xs = [y]"
proof (induction xs)
  case Nil
  then show ?case by simp
next
  case (Cons x xs)
  show ?case
  proof (cases "key x = k")
    case True
    with Cons.prems have "y = x" and "\<forall>z \<in> set xs. key z \<noteq> k" by (auto simp: image_iff)
    then show ?thesis using True by (simp add: filter_empty_conv)
  next
    case False
    with Cons show ?thesis by simp
  qed
qed

lemma is_version_key: "is_version sid h = (\<lambda>v. ver_key v = (sid, h))"
  by (auto simp: is_version_def ver_key_def fun_eq_iff)

lemma is_version_set_envelope [simp]: "is_version sid h (set_envelope e i g v) = is_version sid h v"
  by (simp add: is_version_def set_envelope_def)

section \<open>The upsert\<close>

lemma upsert_version_stored:
  assumes dist: "distinct (map ver_key (skillVersions d))"
    and up: "upsert_version fits t d sid h e i g p m = Inr (d1, v1)"
  shows "version_at d1 sid h = Some v1 \<and> filter (is_version sid h) (skillVersions d1) = [v1] \<and>
         skills d1 = skills d \<and> users d1 = users d \<and> nextId d1 = nextId d \<and>
         (version_at d sid h = None \<longrightarrow> sid \<in> set (map sk_id (skills d))) \<and>
         v1 = (case version_at d sid h of
                 None \<Rightarrow> \<lparr>ver_hash = h, ver_skillId = sid, ver_encryptedData = e, ver_iv = i,
                           ver_tag = g, ver_parentHash = p, ver_message = m, ver_createdAt = t\<rparr>
               | Some old \<Rightarrow> set_envelope e i g old)"
proof (cases "version_at d sid h")
  case None
  let ?row = "\<lparr>ver_hash = h, ver_skillId = sid, ver_encryptedData = e, ver_iv = i,
                ver_tag = g, ver_parentHash = p, ver_message = m, ver_createdAt = t\<rparr>"
  from up None have fk: "\<exists>s \<in> set (skills d). sk_id s = sid"
    and d1: "d1 = d\<lparr>skillVersions := skillVersions d @ [?row]\<rparr>" and v1: "v1 = ?row"
    by (auto simp: upsert_version_def Let_def split: if_splits)
  have row: "is_version sid h ?row" by (simp add: is_version_def)
  from None have "find (is_version sid h) (skillVersions d) = None"
    by (simp add: version_at_def)
  then show ?thesis
    using fk row None by (auto simp: d1 v1 version_at_def find_append_new find_None_filter)
next
  case (Some old)
  from up Some have d1: "d1 = d\<lparr>skillVersions :=
       map (\<lambda>v. if is_version sid h v then set_envelope e i g v else v) (skillVersions d)\<rparr>"
    and v1: "v1 = set_envelope e i g old"
    by (auto simp: upsert_version_def)
  from Some have f: "find (is_version sid h) (skillVersions d) = Some old"
    by (simp add: version_at_def)
  then have old: "is_version sid h old"
    by (auto dest: find_Some_set) 
  from f dist have "filter (is_version sid h) (skillVersions d) = [old]"
    unfolding is_version_key by (rule find_distinct_filter [rotated])
  then show ?thesis
    using f old Some by (simp add: d1 v1 version_at_def find_map_upd filter_map_upd)
qed

lemma upsert_version_again:
  assumes "version_at d sid h = Some v" and "filter (is_version sid h) (skillVersions d) = [v]"
  shows "\<exists>d2. upsert_version fits t d sid h e i g p m = Inr (d2, set_envelope e i g v) \<and>
           filter (is_version sid h) (skillVersions d2) = [set_envelope e i g v]"
proof -
  from assms(1) have "is_version sid h v"
    by (auto simp: version_at_def dest: find_Some_set)
  then show ?thesis
    using assms by (simp add: upsert_version_def filter_map_upd)
qed

lemma createSkillVersion_Inr:
  "createSkillVersion fits t d sid h e i g p m = Inr r \<longleftrightarrow>
     0 \<notin> set h \<and> 0 \<notin> set e \<and> 0 \<notin> set i \<and> 0 \<notin> set g \<and>
     (\<forall>x. p = Some x \<longrightarrow> 0 \<notin> set x) \<and> (\<forall>x. m = Some x \<longrightarrow> 0 \<notin> set x) \<and>
     upsert_version fits t d sid (scrub h) (scrub e) (scrub i) (scrub g)
       (map_option scrub p) (map_option scrub m) = Inr r"
  unfolding createSkillVersion_def and_then_Inr pg_text_Inr pg_text_opt_Inr by auto

text \<open>
  C6 (as amended). \<open>createSkillVersion\<close> is idempotent on (skillId, hash): once a push
  of a hash for a skill has succeeded on a well-formed store, a second push of the same hash
  for that skill, with an envelope, parent hash and message free of U+0000, succeeds as
  well and leaves exactly one stored version for the stored form of that hash. The second
  push replaces \<open>encryptedData\<close>, \<open>iv\<close> and \<open>tag\<close> of the stored row and nothing
  else: message, parent hash and creation time stay as they were stored, and they are those
  of the first push when the hash had not been stored before it.
\<close>

theorem createSkillVersion_idempotent:
  assumes ok: "db_ok d"
    and first: "createSkillVersion fits t1 d sid h e1 i1 g1 p1 m1 = Inr (d1, v1)"
    and valid: "0 \<notin> set e2" "0 \<notin> set i2" "0 \<notin> set g2"
      "\<forall>x. p2 = Some x \<longrightarrow> 0 \<notin> set x" "\<forall>x. m2 = Some x \<longrightarrow> 0 \<notin> set x"
  shows "\<exists>d2 v2.
      createSkillVersion fits t2 d1 sid h e2 i2 g2 p2 m2 = Inr (d2, v2) \<and>
      filter (is_version sid (scrub h)) (skillVersions d2) = [v2] \<and>
      v2 = v1\<lparr>ver_encryptedData := scrub e2, ver_iv := scrub i2, ver_tag := scrub g2\<rparr> \<and>
      (version_at d sid (scrub h) = None \<longrightarrow>
         v1 = \<lparr>ver_hash = scrub h, ver_skillId = sid, ver_encryptedData = scrub e1,
               ver_iv = scrub i1, ver_tag = scrub g1, ver_parentHash = map_option scrub p1,
               ver_message = map_option scrub m1, ver_createdAt = t1\<rparr>)"
proof -
  from first have h: "0 \<notin> set h"
    and up: "upsert_version fits t1 d sid (scrub h) (scrub e1) (scrub i1) (scrub g1)
       (map_option scrub p1) (map_option scrub m1) = Inr (d1, v1)"
    by (simp_all add: createSkillVersion_Inr)
  from ok have dist: "distinct (map ver_key (skillVersions d))"
    by (simp add: db_ok_def)
  note st = upsert_version_stored [OF dist up]
  from st have at: "version_at d1 sid (scrub h) = Some v1"
    and one: "filter (is_version sid (scrub h)) (skillVersions d1) = [v1]"
    by simp_all
  from upsert_version_again [OF at one]
  obtain d2 where 2: "upsert_version fits t2 d1 sid (scrub h) (scrub e2) (scrub i2) (scrub g2)
       (map_option scrub p2) (map_option scrub m2)
       = Inr (d2, set_envelope (scrub e2) (scrub i2) (scrub g2) v1)"
    and f2: "filter (is_version sid (scrub h)) (skillVersions d2)
       = [set_envelope (scrub e2) (scrub i2) (scrub g2) v1]"
    by blast
  have "createSkillVersion fits t2 d1 sid h e2 i2 g2 p2 m2
      = Inr (d2, set_envelope (scrub e2) (scrub i2) (scrub g2) v1)"
    using h valid 2 by (simp add: createSkillVersion_Inr)
  moreover have "version_at d sid (scrub h) = None \<longrightarrow>
         v1 = \<lparr>ver_hash = scrub h, ver_skillId = sid, ver_encryptedData = scrub e1,
               ver_iv = scrub i1, ver_tag = scrub g1, ver_parentHash = map_option scrub p1,
               ver_message = map_option scrub m1, ver_createdAt = t1\<rparr>"
    using st by simp
  ultimately show ?thesis
    using f2 by (simp add: set_envelope_def)
qed


section \<open>The store stays well formed\<close>

lemma createSkill_Inr:
  "createSkill fits tc d u k = Inr (d1, s) \<longleftrightarrow>
     0 \<notin> set k \<and> fits (scrub k) \<and> skill_at d u (scrub k) = None \<and> u \<in> set (users d) \<and>
     s = \<lparr>sk_id = nextId d, sk_userId = u, sk_skillKey = scrub k, sk_currentHash = None,
          sk_createdAt = tc, sk_updatedAt = tc\<rparr> \<and>
     d1 = d\<lparr>skills := skills d @ [s], nextId := Suc (nextId d)\<rparr>"
  unfolding createSkill_def and_then_Inr pg_text_Inr by (auto simp: Let_def)

lemma db_ok_createSkill:
  assumes "db_ok d" and "createSkill fits tc d u k = Inr (d1, s)"
  shows "db_ok d1"
proof -
  from assms(2) have k: "0 \<notin> set k" and none: "skill_at d u (scrub k) = None"
    and u: "u \<in> set (users d)"
    and s: "s = \<lparr>sk_id = nextId d, sk_userId = u, sk_skillKey = scrub k, sk_currentHash = None,
          sk_createdAt = tc, sk_updatedAt = tc\<rparr>"
    and d1: "d1 = d\<lparr>skills := skills d @ [s], nextId := Suc (nextId d)\<rparr>"
    by (simp_all add: createSkill_Inr)
  from none have "(u, scrub k) \<notin> set (map sk_key (skills d))"
    by (auto simp: skill_at_def find_None_iff2 sk_key_def)
  moreover from assms(1) have "nextId d \<notin> set (map sk_id (skills d))"
    by (auto simp: db_ok_def list_all_iff)
  moreover have "skill_text_ok s" "pointer s = []"
    using k by (simp_all add: s skill_text_ok_def text_ok_scrub text_opt_ok_def pointer_def)
  moreover have "sk_id s = nextId d" "sk_userId s = u" "sk_key s = (u, scrub k)"
    by (simp_all add: s sk_key_def)
  ultimately show ?thesis
    using assms(1) u unfolding db_ok_def d1
    by (auto simp: list_all_iff less_Suc_eq)
qed

lemma db_ok_upsert_version:
  assumes ok: "db_ok d" and up: "upsert_version fits t d sid h e i g p m = Inr (d2, v)"
    and tx: "text_ok h" "text_ok e" "text_ok i" "text_ok g" "text_opt_ok p" "text_opt_ok m"
  shows "db_ok d2"
proof (cases "version_at d sid h")
  case None
  let ?row = "\<lparr>ver_hash = h, ver_skillId = sid, ver_encryptedData = e, ver_iv = i,
                ver_tag = g, ver_parentHash = p, ver_message = m, ver_createdAt = t\<rparr>"
  from None have new: "(sid, h) \<notin> set (map ver_key (skillVersions d))"
    by (auto simp: version_at_def find_None_iff2 is_version_def ver_key_def)
  from up None have fk: "sid \<in> set (map sk_id (skills d))"
    and d2: "d2 = d\<lparr>skillVersions := skillVersions d @ [?row]\<rparr>"
    by (auto simp: upsert_version_def Let_def split: if_splits)
  have row: "version_text_ok ?row" "ver_key ?row = (sid, h)" "ver_skillId ?row = sid"
    using tx by (simp_all add: version_text_ok_def ver_key_def)
  show ?thesis
    using ok new fk row unfolding db_ok_def d2
    by (auto simp: list_all_iff)
next
  case (Some old)
  let ?g = "\<lambda>v. if is_version sid h v then set_envelope e i g v else v"
  from up Some have d2: "d2 = d\<lparr>skillVersions := map ?g (skillVersions d)\<rparr>"
    by (auto simp: upsert_version_def)
  have 1: "map ver_key (map ?g xs) = map ver_key xs" for xs
    by (rule map_upd_key) (simp add: ver_key_def set_envelope_def)
  have 2: "map ver_skillId (map ?g xs) = map ver_skillId xs" for xs
    by (rule map_upd_key) (simp add: set_envelope_def)
  have 3: "list_all version_text_ok xs \<Longrightarrow> list_all version_text_ok (map ?g xs)" for xs
    using tx by (induction xs) (auto simp: version_text_ok_def set_envelope_def)
  have sel: "skills (d\<lparr>skillVersions := X\<rparr>) = skills d" "skillVersions (d\<lparr>skillVersions := X\<rparr>) = X"
    "nextId (d\<lparr>skillVersions := X\<rparr>) = nextId d" "users (d\<lparr>skillVersions := X\<rparr>) = users d" for X
    by simp_all
  show ?thesis
    using ok 3 unfolding db_ok_def d2
    by (simp only: sel 1 2)
qed

lemma db_ok_createSkillVersion:
  assumes "db_ok d" and "createSkillVersion fits t d sid h e i g p m = Inr (d2, v)"
  shows "db_ok d2"
  using assms unfolding createSkillVersion_Inr
  by (auto intro!: db_ok_upsert_version [where d = d and ?d2.0 = d2] text_ok_scrub text_opt_ok_scrub)

lemma pointer_set_pointer:
  "pointer (set_pointer tu sid h s) = (if sk_id s = sid then [(sid, h)] else pointer s)"
  by (simp add: pointer_def set_pointer_def)

lemma db_ok_set_pointer:
  assumes ok: "db_ok d" and tx: "text_ok h"
    and st: "(sid, h) \<in> set (map ver_key (skillVersions d))"
  shows "db_ok (d\<lparr>skills := map (set_pointer tu sid h) (skills d)\<rparr>)"
proof -
  have 1: "map sk_id (map (set_pointer tu sid h) xs) = map sk_id xs" for xs
    by (induction xs) (simp_all add: set_pointer_def)
  have 2: "map sk_key (map (set_pointer tu sid h) xs) = map sk_key xs" for xs
    by (induction xs) (simp_all add: set_pointer_def sk_key_def)
  have 3: "map sk_userId (map (set_pointer tu sid h) xs) = map sk_userId xs" for xs
    by (induction xs) (simp_all add: set_pointer_def)
  have 4: "list_all skill_text_ok xs \<Longrightarrow> list_all skill_text_ok (map (set_pointer tu sid h) xs)" for xs
    using tx by (induction xs) (auto simp: skill_text_ok_def set_pointer_def text_opt_ok_def)
  have 5: "set (concat (map pointer (map (set_pointer tu sid h) xs)))
             \<subseteq> insert (sid, h) (set (concat (map pointer xs)))" for xs
    by (induction xs) (auto simp: pointer_set_pointer)
  have sel: "skills (d\<lparr>skills := X\<rparr>) = X" "skillVersions (d\<lparr>skills := X\<rparr>) = skillVersions d"
    "nextId (d\<lparr>skills := X\<rparr>) = nextId d" "users (d\<lparr>skills := X\<rparr>) = users d" for X
    by simp_all
  from ok st 5 [of "skills d"]
  have 6: "set (concat (map pointer (map (set_pointer tu sid h) (skills d))))
             \<subseteq> set (map ver_key (skillVersions d))"
    unfolding db_ok_def by blast
  show ?thesis
    using ok 4 6 unfolding db_ok_def
    by (simp only: sel 1 2 3)
qed


section \<open>The push route\<close>

lemma text_opt_ok_scrub_id: "text_opt_ok p \<Longrightarrow> map_option scrub p = p"
  by (cases p) (simp_all add: text_opt_ok_def text_ok_def scrub_well_formed)

lemma skill_at_set_pointer:
  "skill_at (d\<lparr>skills := map (set_pointer tu sid h) (skills d)\<rparr>) u k
     = map_option (set_pointer tu sid h) (skill_at d u k)"
proof -
  have "find (\<lambda>s. sk_userId s = u \<and> sk_skillKey s = k) (map (set_pointer tu sid h) xs)
      = map_option (set_pointer tu sid h) (find (\<lambda>s. sk_userId s = u \<and> sk_skillKey s = k) xs)" for xs
    by (induction xs) (auto simp: set_pointer_def)
  then show ?thesis by (simp add: skill_at_def)
qed

lemma find_or_create:
  assumes ok: "db_ok d" and k: "0 \<notin> set k"
    and fc: "(case skill_at d u (scrub k) of Some s \<Rightarrow> Inr (d, s) | None \<Rightarrow> createSkill fits tc d u k)
               = Inr (d1, skill)"
  shows "db_ok d1 \<and> skill_at d1 u (scrub k) = Some skill \<and> skill \<in> set (skills d1) \<and>
         skillVersions d1 = skillVersions d \<and>
         (case skill_at d u (scrub k) of
            Some s0 \<Rightarrow> skill = s0 \<and> d1 = d
          | None \<Rightarrow> sk_currentHash skill = None \<and> sk_id skill = nextId d)"
proof (cases "skill_at d u (scrub k)")
  case None
  with fc have c: "createSkill fits tc d u k = Inr (d1, skill)" by simp
  then have "db_ok d1" using ok by (rule db_ok_createSkill [rotated])
  moreover from None have "find (\<lambda>s. sk_userId s = u \<and> sk_skillKey s = scrub k) (skills d) = None"
    by (simp add: skill_at_def)
  ultimately show ?thesis
    using c None unfolding createSkill_Inr
    by (auto simp: skill_at_def find_append_new)
next
  case (Some s)
  with fc ok show ?thesis by (auto simp: skill_at_def dest: find_Some_set)
qed

lemma post_skill_version_Ok:
  assumes "post_skill_version fits tc tv tu d u k body = (d', Ok r)"
  shows "\<exists>d1 skill d2 version.
     0 \<notin> set k \<and>
     (case skill_at d u (scrub k) of Some s \<Rightarrow> Inr (d, s) | None \<Rightarrow> createSkill fits tc d u k)
        = Inr (d1, skill) \<and>
     createSkillVersion fits tv d1 (sk_id skill) (b_hash body) (b_encryptedData body) (b_iv body)
        (b_tag body) (sk_currentHash skill) (b_message body) = Inr (d2, version) \<and>
     d' = d2\<lparr>skills := map (set_pointer tu (sk_id skill) (scrub (b_hash body))) (skills d2)\<rparr> \<and>
     r = \<lparr>pr_skillId = sk_id skill, pr_hash = ver_hash version,
          pr_parentHash = ver_parentHash version, pr_createdAt = ver_createdAt version\<rparr>"
  using assms
  by (auto simp: post_skill_version_def push_create_def findSkillByKey_def
        updateSkillCurrentHash_def and_then_def pg_text_def Let_def internal_error_def
      split: sum.splits prod.splits response.splits if_splits)

text \<open>
  C5 (as amended). For every push that succeeds on a well-formed store: afterwards the
  skill's pointer is the pushed hash in its stored form (the pushed hash itself when it is
  well-formed UTF-16), and a version of that hash is stored for the skill, with the parent
  hash that the reply reports. That parent hash is the value of the skill's pointer
  immediately before the push when the hash was not yet stored for the skill (null for a
  skill that did not exist), and the parent hash already stored when the hash had been
  pushed before. It is null whenever the skill had no version before the push.
\<close>

theorem post_skill_version_parent:
  assumes ok: "db_ok d"
    and push: "post_skill_version fits tc tv tu d u k body = (d', Ok r)"
  shows "\<exists>s' v.
     skill_at d' u (scrub k) = Some s' \<and> sk_id s' = pr_skillId r \<and>
     sk_currentHash s' = Some (scrub (b_hash body)) \<and>
     (well_formed (b_hash body) \<longrightarrow> sk_currentHash s' = Some (b_hash body)) \<and>
     version_at d' (pr_skillId r) (scrub (b_hash body)) = Some v \<and>
     pr_hash r = ver_hash v \<and> pr_parentHash r = ver_parentHash v \<and>
     ver_parentHash v =
       (case skill_at d u (scrub k) of
          None \<Rightarrow> None
        | Some s \<Rightarrow> (case version_at d (sk_id s) (scrub (b_hash body)) of
                       None \<Rightarrow> sk_currentHash s
                     | Some old \<Rightarrow> ver_parentHash old)) \<and>
     ((case skill_at d u (scrub k) of
         None \<Rightarrow> True
       | Some s \<Rightarrow> filter (\<lambda>x. ver_skillId x = sk_id s) (skillVersions d) = [])
      \<longrightarrow> ver_parentHash v = None)"
proof -
  let ?k = "scrub k" and ?h = "scrub (b_hash body)"
  from post_skill_version_Ok [OF push]
  obtain d1 skill d2 version where k: "0 \<notin> set k"
    and fc: "(case skill_at d u ?k of Some s \<Rightarrow> Inr (d, s) | None \<Rightarrow> createSkill fits tc d u k)
        = Inr (d1, skill)"
    and cv: "createSkillVersion fits tv d1 (sk_id skill) (b_hash body) (b_encryptedData body) (b_iv body)
        (b_tag body) (sk_currentHash skill) (b_message body) = Inr (d2, version)"
    and d': "d' = d2\<lparr>skills := map (set_pointer tu (sk_id skill) ?h) (skills d2)\<rparr>"
    and r: "r = \<lparr>pr_skillId = sk_id skill, pr_hash = ver_hash version,
          pr_parentHash = ver_parentHash version, pr_createdAt = ver_createdAt version\<rparr>"
    by blast
  from find_or_create [OF ok k fc]
  have ok1: "db_ok d1" and at1: "skill_at d1 u ?k = Some skill" and mem: "skill \<in> set (skills d1)"
    and vs: "skillVersions d1 = skillVersions d"
    and old: "(case skill_at d u ?k of Some s0 \<Rightarrow> skill = s0 \<and> d1 = d
          | None \<Rightarrow> sk_currentHash skill = None \<and> sk_id skill = nextId d)"
    by simp_all
  from ok1 mem have ptr: "text_opt_ok (sk_currentHash skill)"
    by (auto simp: db_ok_def list_all_iff skill_text_ok_def)
  from cv have up: "upsert_version fits tv d1 (sk_id skill) ?h (scrub (b_encryptedData body))
       (scrub (b_iv body)) (scrub (b_tag body)) (sk_currentHash skill)
       (map_option scrub (b_message body)) = Inr (d2, version)"
    using text_opt_ok_scrub_id [OF ptr] by (simp add: createSkillVersion_Inr)
  from ok1 have dist: "distinct (map ver_key (skillVersions d1))"
    by (simp add: db_ok_def)
  note st = upsert_version_stored [OF dist up]
  from st have at2: "version_at d2 (sk_id skill) ?h = Some version" and sk2: "skills d2 = skills d1"
    by simp_all
  have vh: "ver_hash version = ?h"
    using at2 by (auto simp: version_at_def is_version_def dest: find_Some_set)
  have par1: "ver_parentHash version =
      (case version_at d1 (sk_id skill) ?h of None \<Rightarrow> sk_currentHash skill
       | Some old \<Rightarrow> ver_parentHash old)"
    using st by (simp add: set_envelope_def split: option.splits)
  have below: "\<forall>x \<in> set (skillVersions d). ver_skillId x < nextId d"
    using ok by (auto simp: db_ok_def list_all_iff)
  have fresh: "version_at d1 (nextId d) ?h = None"
    using below by (auto simp: version_at_def vs find_None_iff2 is_version_def)
  have par: "ver_parentHash version =
       (case skill_at d u ?k of
          None \<Rightarrow> None
        | Some s \<Rightarrow> (case version_at d (sk_id s) ?h of
                       None \<Rightarrow> sk_currentHash s
                     | Some old \<Rightarrow> ver_parentHash old))"
  proof (cases "skill_at d u ?k")
    case None
    with old fresh par1 show ?thesis by simp
  next
    case (Some s0)
    with old par1 show ?thesis by (auto split: option.splits)
  qed
  have first: "ver_parentHash version = None"
    if none: "case skill_at d u ?k of None \<Rightarrow> True
       | Some s \<Rightarrow> filter (\<lambda>x. ver_skillId x = sk_id s) (skillVersions d) = []"
  proof (cases "skill_at d u ?k")
    case None
    with par show ?thesis by simp
  next
    case (Some s)
    with none have nov: "\<forall>x \<in> set (skillVersions d). ver_skillId x \<noteq> sk_id s"
      by (simp add: filter_empty_conv)
    then have 1: "version_at d (sk_id s) ?h = None"
      by (auto simp: version_at_def find_None_iff2 is_version_def)
    from Some have "s \<in> set (skills d)"
      by (auto simp: skill_at_def dest: find_Some_set)
    then have "set (pointer s) \<subseteq> set (map ver_key (skillVersions d))"
      using ok by (auto simp: db_ok_def)
    with nov have "sk_currentHash s = None"
      by (cases "sk_currentHash s") (auto simp: pointer_def ver_key_def)
    with par Some 1 show ?thesis by simp
  qed
  have "skill_at d2 u ?k = Some skill"
    using at1 sk2 by (simp add: skill_at_def)
  then have at': "skill_at d' u ?k = Some (set_pointer tu (sk_id skill) ?h skill)"
    by (simp add: d' skill_at_set_pointer)
  have atv: "version_at d' (sk_id skill) ?h = Some version"
    using at2 by (simp add: d' version_at_def)
  show ?thesis
    using at' atv vh par first
    by (simp add: r set_pointer_def scrub_well_formed)
qed

lemma db_ok_post_skill_version:
  assumes ok: "db_ok d"
  shows "db_ok (fst (post_skill_version fits tc tv tu d u k body))"
proof -
  have fail: "db_ok (fst (push_create fits tc tv d u k body))"
    using ok
    by (auto simp: push_create_def findSkillByKey_def and_then_def pg_text_def Let_def
          dest: db_ok_createSkill db_ok_createSkillVersion
          split: option.splits sum.splits prod.splits if_splits)
  show ?thesis
  proof (cases "post_skill_version fits tc tv tu d u k body")
    case (Pair d' res)
    show ?thesis
    proof (cases res)
      case (Ok r)
      from post_skill_version_Ok [OF Pair [unfolded Ok]]
      obtain d1 skill d2 version where k: "0 \<notin> set k"
        and fc: "(case skill_at d u (scrub k) of Some s \<Rightarrow> Inr (d, s) | None \<Rightarrow> createSkill fits tc d u k)
            = Inr (d1, skill)"
        and cv: "createSkillVersion fits tv d1 (sk_id skill) (b_hash body) (b_encryptedData body) (b_iv body)
            (b_tag body) (sk_currentHash skill) (b_message body) = Inr (d2, version)"
        and d': "d' = d2\<lparr>skills := map (set_pointer tu (sk_id skill) (scrub (b_hash body))) (skills d2)\<rparr>"
        by blast
      from find_or_create [OF ok k fc] have ok1: "db_ok d1" by simp
      from ok1 cv have ok2: "db_ok d2" by (rule db_ok_createSkillVersion)
      from cv have h: "0 \<notin> set (b_hash body)"
        and up: "upsert_version fits tv d1 (sk_id skill) (scrub (b_hash body))
           (scrub (b_encryptedData body)) (scrub (b_iv body)) (scrub (b_tag body))
           (map_option scrub (sk_currentHash skill)) (map_option scrub (b_message body))
           = Inr (d2, version)"
        by (simp_all add: createSkillVersion_Inr)
      from ok1 have "distinct (map ver_key (skillVersions d1))" by (simp add: db_ok_def)
      from upsert_version_stored [OF this up]
      have "version_at d2 (sk_id skill) (scrub (b_hash body)) = Some version" by simp
      then have "(sk_id skill, scrub (b_hash body)) \<in> set (map ver_key (skillVersions d2))"
        by (auto simp: version_at_def is_version_def ver_key_def image_iff dest!: find_Some_set
              intro!: bexI [of _ version])
      with ok2 text_ok_scrub [OF h] have "db_ok d'"
        unfolding d' by (rule db_ok_set_pointer)
      with Pair show ?thesis by simp
    next
      case (Failed st msg)
      with Pair fail show ?thesis
        by (auto simp: post_skill_version_def internal_error_def
              split: prod.splits response.splits sum.splits)
    qed
  qed
qed


lemmas text_eval = js_def is_surrogate_def is_high_surrogate_def is_low_surrogate_def
  text_ok_def text_opt_ok_def pg_text_def pg_text_opt_def and_then_def

lemmas store_eval = createSkill_def createSkillVersion_def upsert_version_def
  updateSkillCurrentHash_def findSkillByKey_def findSkillVersion_def skill_at_def version_at_def
  set_pointer_def set_envelope_def is_version_def Let_def

lemmas push_eval = post_skill_version_def push_create_def internal_error_def
  new_account_db_def example_db_def example_body_def second_body_def short_keys_def empty_db_def

lemma db_ok_empty: "db_ok empty_db"
  by (simp add: db_ok_def empty_db_def)

lemma db_ok_new_account: "db_ok new_account_db"
  by (simp add: db_ok_def new_account_db_def)

lemma db_ok_example: "db_ok example_db"
  by (simp add: db_ok_def example_db_def skill_text_ok_def version_text_ok_def pointer_def
        sk_key_def ver_key_def text_eval)

text \<open>When a push succeeds.\<close>

lemma post_skill_version_succeeds:
  assumes ok: "db_ok d"
    and body: "b_hash body \<noteq> []" "b_encryptedData body \<noteq> []" "b_iv body \<noteq> []" "b_tag body \<noteq> []"
    and valid: "0 \<notin> set k" "0 \<notin> set (b_hash body)" "0 \<notin> set (b_encryptedData body)"
      "0 \<notin> set (b_iv body)" "0 \<notin> set (b_tag body)" "\<forall>x. b_message body = Some x \<longrightarrow> 0 \<notin> set x"
    and fits: "fits (scrub k)" "fits (scrub (b_hash body))"
    and user: "u \<in> set (users d)"
  shows "\<exists>d' r. post_skill_version fits tc tv tu d u k body = (d', Ok r)"
proof -
  have "\<exists>d1 skill. (case skill_at d u (scrub k) of Some s \<Rightarrow> Inr (d, s)
                     | None \<Rightarrow> createSkill fits tc d u k) = Inr (d1, skill)"
    using valid(1) fits(1) user by (cases "skill_at d u (scrub k)") (simp_all add: createSkill_Inr)
  then obtain d1 skill where fc: "(case skill_at d u (scrub k) of Some s \<Rightarrow> Inr (d, s)
                     | None \<Rightarrow> createSkill fits tc d u k) = Inr (d1, skill)"
    by blast
  from find_or_create [OF ok valid(1) fc]
  have ok1: "db_ok d1" and mem: "skill \<in> set (skills d1)" by simp_all
  then have "text_opt_ok (sk_currentHash skill)"
    by (auto simp: db_ok_def list_all_iff skill_text_ok_def)
  then have ptr: "\<forall>x. sk_currentHash skill = Some x \<longrightarrow> 0 \<notin> set x"
    by (auto simp: text_opt_ok_def text_ok_def)
  have "\<exists>r. upsert_version fits tv d1 (sk_id skill) (scrub (b_hash body))
       (scrub (b_encryptedData body)) (scrub (b_iv body)) (scrub (b_tag body))
       (map_option scrub (sk_currentHash skill)) (map_option scrub (b_message body)) = Inr r"
    using mem fits(2) by (auto simp: upsert_version_def Let_def split: option.splits)
  then obtain d2 version where cv: "createSkillVersion fits tv d1 (sk_id skill) (b_hash body)
       (b_encryptedData body) (b_iv body) (b_tag body) (sk_currentHash skill) (b_message body)
       = Inr (d2, version)"
    using valid ptr by (auto simp: createSkillVersion_Inr)
  show ?thesis
    using body valid(1,2) fc cv
    by (simp add: post_skill_version_def push_create_def findSkillByKey_def
          updateSkillCurrentHash_def and_then_def pg_text_def)
qed

text \<open>
  How a push fails. The account was deleted while its token is still valid: the skill
  cannot be created. The hash holds U+0000: the skill row is created and stays, without a
  version. In both cases the answer is that of \<open>onError\<close>.
\<close>

lemma push_deleted_user:
  "post_skill_version short_keys 1 2 3 empty_db 7 (js ''skill:deploy'') example_body
     = (empty_db, Failed 500 (js ''Internal server error''))"
  by (simp add: push_eval store_eval text_eval)

lemma push_zero_in_hash:
  "post_skill_version short_keys 1 2 3 new_account_db 7 (js ''skill:deploy'')
       (example_body\<lparr>b_hash := [0x30, 0]\<rparr>)
     = (new_account_db
          \<lparr>skills := [\<lparr>sk_id = 0, sk_userId = 7, sk_skillKey = js ''skill:deploy'',
                        sk_currentHash = None, sk_createdAt = 1, sk_updatedAt = 1\<rparr>],
            nextId := 1\<rparr>,
        Failed 500 (js ''Internal server error''))"
  by (simp add: push_eval store_eval text_eval)

text \<open>Two hashes that are unpaired surrogates meet in one row.\<close>

lemma surrogates_one_row:
  "(case createSkillVersion short_keys 4 example_db 0 [0xD800] (js ''DDDD'') (js ''EEEE'')
           (js ''FFFF'') None None of
      Inl e \<Rightarrow> False
    | Inr (d1, v1) \<Rightarrow>
        (case createSkillVersion short_keys 5 d1 0 [0xDC00] (js ''GGGG'') (js ''HHHH'')
                (js ''IIII'') None None of
           Inl e \<Rightarrow> False
         | Inr (d2, v2) \<Rightarrow>
             map ver_hash (skillVersions d2) = [js ''0a1b2c3d'', [0xFFFD]] \<and>
             ver_encryptedData v2 = js ''GGGG''))"
  by (simp add: push_eval store_eval text_eval)

theorem createSkillVersion_idempotent_witness:
  "db_ok example_db \<and>
   version_at example_db 0 (js ''4e5f6a7b'') = None \<and>
   (\<exists>d1 v1 d2 v2.
      createSkillVersion short_keys 4 example_db 0 (js ''4e5f6a7b'') (js ''DDDD'') (js ''EEEE'')
        (js ''FFFF'') (Some (js ''0a1b2c3d'')) (Some (js ''second'')) = Inr (d1, v1) \<and>
      createSkillVersion short_keys 5 d1 0 (js ''4e5f6a7b'') (js ''GGGG'') (js ''HHHH'')
        (js ''IIII'') None (Some (js ''retry'')) = Inr (d2, v2) \<and>
      filter (is_version 0 (js ''4e5f6a7b'')) (skillVersions d2) = [v2] \<and>
      v2 = \<lparr>ver_hash = js ''4e5f6a7b'', ver_skillId = 0, ver_encryptedData = js ''GGGG'',
             ver_iv = js ''HHHH'', ver_tag = js ''IIII'', ver_parentHash = Some (js ''0a1b2c3d''),
             ver_message = Some (js ''second''), ver_createdAt = 4\<rparr>) \<and>
   version_at example_db 0 (js ''0a1b2c3d'') \<noteq> None \<and>
   (\<exists>d1 v1 d2 v2.
      createSkillVersion short_keys 4 example_db 0 (js ''0a1b2c3d'') (js ''DDDD'') (js ''EEEE'')
        (js ''FFFF'') (Some (js ''0a1b2c3d'')) (Some (js ''second'')) = Inr (d1, v1) \<and>
      createSkillVersion short_keys 5 d1 0 (js ''0a1b2c3d'') (js ''GGGG'') (js ''HHHH'')
        (js ''IIII'') None (Some (js ''retry'')) = Inr (d2, v2) \<and>
      filter (is_version 0 (js ''0a1b2c3d'')) (skillVersions d2) = [v2] \<and>
      v2 = \<lparr>ver_hash = js ''0a1b2c3d'', ver_skillId = 0, ver_encryptedData = js ''GGGG'',
             ver_iv = js ''HHHH'', ver_tag = js ''IIII'', ver_parentHash = None,
             ver_message = Some (js ''first''), ver_createdAt = 2\<rparr>)"
proof -
  have s: "scrub (js ''4e5f6a7b'') = js ''4e5f6a7b''" "scrub (js ''0a1b2c3d'') = js ''0a1b2c3d''"
    "scrub (js ''GGGG'') = js ''GGGG''" "scrub (js ''HHHH'') = js ''HHHH''"
    "scrub (js ''IIII'') = js ''IIII''" "scrub (js ''DDDD'') = js ''DDDD''"
    "scrub (js ''EEEE'') = js ''EEEE''" "scrub (js ''FFFF'') = js ''FFFF''"
    "scrub (js ''second'') = js ''second''"
    by (simp_all add: text_eval)
  have z: "0 \<notin> set (js ''GGGG'')" "0 \<notin> set (js ''HHHH'')" "0 \<notin> set (js ''IIII'')"
    "\<forall>x. (None :: jsstring option) = Some x \<longrightarrow> 0 \<notin> set x"
    "\<forall>x. Some (js ''retry'') = Some x \<longrightarrow> 0 \<notin> set x"
    by (simp_all add: js_def)
  obtain d1 v1 where 1: "createSkillVersion short_keys 4 example_db 0 (js ''4e5f6a7b'')
      (js ''DDDD'') (js ''EEEE'') (js ''FFFF'') (Some (js ''0a1b2c3d'')) (Some (js ''second''))
      = Inr (d1, v1)"
    by (simp add: push_eval store_eval text_eval)
  obtain d1' v1' where 2: "createSkillVersion short_keys 4 example_db 0 (js ''0a1b2c3d'')
      (js ''DDDD'') (js ''EEEE'') (js ''FFFF'') (Some (js ''0a1b2c3d'')) (Some (js ''second''))
      = Inr (d1', v1')"
    by (simp add: push_eval store_eval text_eval)
  have n: "version_at example_db 0 (js ''4e5f6a7b'') = None"
    by (simp add: push_eval store_eval text_eval)
  have o: "version_at example_db 0 (js ''0a1b2c3d'') \<noteq> None"
    by (simp add: push_eval store_eval text_eval)
  have v1': "v1' = \<lparr>ver_hash = js ''0a1b2c3d'', ver_skillId = 0, ver_encryptedData = js ''DDDD'',
             ver_iv = js ''EEEE'', ver_tag = js ''FFFF'', ver_parentHash = None,
             ver_message = Some (js ''first''), ver_createdAt = 2\<rparr>"
    using 2 by (simp add: push_eval store_eval text_eval)
  show ?thesis
    using createSkillVersion_idempotent [OF db_ok_example 1 z, of 5]
      createSkillVersion_idempotent [OF db_ok_example 2 z, of 5]
      1 2 n o v1' db_ok_example
    by (auto simp: s)
qed

text \<open>
  The claim as stated fails on the message: after a second push of the same hash with
  another message, the single stored version of that hash still carries the first one.
\<close>

theorem createSkillVersion_message_counterexample:
  "(case createSkillVersion short_keys 4 example_db 0 (js ''4e5f6a7b'') (js ''DDDD'') (js ''EEEE'')
          (js ''FFFF'') (Some (js ''0a1b2c3d'')) (Some (js ''second'')) of
      Inl e \<Rightarrow> False
    | Inr (d1, v1) \<Rightarrow>
        (case createSkillVersion short_keys 5 d1 0 (js ''4e5f6a7b'') (js ''GGGG'') (js ''HHHH'')
                (js ''IIII'') (Some (js ''0a1b2c3d'')) (Some (js ''retry'')) of
           Inl e \<Rightarrow> False
         | Inr (d2, v2) \<Rightarrow>
             map ver_message (filter (is_version 0 (js ''4e5f6a7b'')) (skillVersions d2))
               = [Some (js ''second'')] \<and>
             ver_message v2 \<noteq> Some (js ''retry'')))"
  by (simp add: push_eval store_eval text_eval)

theorem post_skill_version_parent_witness:
  "db_ok new_account_db \<and> db_ok example_db \<and>
   post_skill_version short_keys 1 2 3 new_account_db 7 (js ''skill:deploy'') example_body
     = (example_db, Ok \<lparr>pr_skillId = 0, pr_hash = js ''0a1b2c3d'', pr_parentHash = None,
                         pr_createdAt = 2\<rparr>) \<and>
   skill_at new_account_db 7 (js ''skill:deploy'') = None \<and>
   map_option sk_currentHash (skill_at example_db 7 (js ''skill:deploy''))
     = Some (Some (js ''0a1b2c3d'')) \<and>
   map_option ver_parentHash (version_at example_db 0 (js ''0a1b2c3d'')) = Some None \<and>
   (\<exists>d2. post_skill_version short_keys 4 5 6 example_db 7 (js ''skill:deploy'') second_body
            = (d2, Ok \<lparr>pr_skillId = 0, pr_hash = js ''4e5f6a7b'',
                        pr_parentHash = Some (js ''0a1b2c3d''), pr_createdAt = 5\<rparr>) \<and>
          version_at example_db 0 (js ''4e5f6a7b'') = None \<and>
          map_option sk_currentHash (skill_at d2 7 (js ''skill:deploy''))
            = Some (Some (js ''4e5f6a7b'')) \<and>
          map_option ver_parentHash (version_at d2 0 (js ''4e5f6a7b''))
            = Some (Some (js ''0a1b2c3d''))) \<and>
   (\<exists>d3. post_skill_version short_keys 7 8 9 example_db 7 (js ''skill:deploy'') example_body
            = (d3, Ok \<lparr>pr_skillId = 0, pr_hash = js ''0a1b2c3d'', pr_parentHash = None,
                        pr_createdAt = 2\<rparr>) \<and>
          map_option sk_currentHash (skill_at d3 7 (js ''skill:deploy''))
            = Some (Some (js ''0a1b2c3d'')) \<and>
          map_option ver_parentHash (version_at d3 0 (js ''0a1b2c3d'')) = Some None)"
proof -
  have s: "scrub (js ''4e5f6a7b'') = js ''4e5f6a7b''" "scrub (js ''0a1b2c3d'') = js ''0a1b2c3d''"
    "scrub (js ''skill:deploy'') = js ''skill:deploy''"
    "well_formed (js ''4e5f6a7b'')" "well_formed (js ''0a1b2c3d'')"
    by (simp_all add: text_eval)
  have b: "b_hash example_body = js ''0a1b2c3d''" "b_hash second_body = js ''4e5f6a7b''"
    by (simp_all add: example_body_def second_body_def)
  have 1: "post_skill_version short_keys 1 2 3 new_account_db 7 (js ''skill:deploy'') example_body
     = (example_db, Ok \<lparr>pr_skillId = 0, pr_hash = js ''0a1b2c3d'', pr_parentHash = None,
                         pr_createdAt = 2\<rparr>)"
    by (simp add: push_eval store_eval text_eval)
  obtain d2 where 2: "post_skill_version short_keys 4 5 6 example_db 7 (js ''skill:deploy'') second_body
            = (d2, Ok \<lparr>pr_skillId = 0, pr_hash = js ''4e5f6a7b'',
                        pr_parentHash = Some (js ''0a1b2c3d''), pr_createdAt = 5\<rparr>)"
    by (simp add: push_eval store_eval text_eval)
  obtain d3 where 3: "post_skill_version short_keys 7 8 9 example_db 7 (js ''skill:deploy'') example_body
            = (d3, Ok \<lparr>pr_skillId = 0, pr_hash = js ''0a1b2c3d'', pr_parentHash = None,
                        pr_createdAt = 2\<rparr>)"
    by (simp add: push_eval store_eval text_eval)
  have e: "skill_at new_account_db 7 (js ''skill:deploy'') = None"
    "version_at example_db 0 (js ''4e5f6a7b'') = None"
    "map_option sk_currentHash (skill_at example_db 7 (js ''skill:deploy''))
       = Some (Some (js ''0a1b2c3d''))"
    "map_option ver_parentHash (version_at example_db 0 (js ''0a1b2c3d'')) = Some None"
    by (simp_all add: push_eval store_eval text_eval)
  show ?thesis
    using post_skill_version_parent [OF db_ok_new_account 1]
      post_skill_version_parent [OF db_ok_example 2]
      post_skill_version_parent [OF db_ok_example 3]
      1 2 3 e db_ok_new_account db_ok_example
    by (auto simp: s b)
qed

text \<open>
  The claim as stated fails when the pushed hash is already stored: after a first push to
  a new account, the pointer before the second push of the same body is the pushed hash,
  and the stored (and reported) parent hash after it is still null.
\<close>

theorem post_skill_version_parent_counterexample:
  "post_skill_version short_keys 1 2 3 new_account_db 7 (js ''skill:deploy'') example_body
     = (example_db, Ok \<lparr>pr_skillId = 0, pr_hash = js ''0a1b2c3d'', pr_parentHash = None,
                         pr_createdAt = 2\<rparr>) \<and>
   map_option sk_currentHash (skill_at example_db 7 (js ''skill:deploy''))
     = Some (Some (js ''0a1b2c3d'')) \<and>
   (case post_skill_version short_keys 4 5 6 example_db 7 (js ''skill:deploy'') example_body of
      (d2, Failed st msg) \<Rightarrow> False
    | (d2, Ok r2) \<Rightarrow>
        map_option ver_parentHash (version_at d2 (pr_skillId r2) (js ''0a1b2c3d'')) = Some None \<and>
        pr_parentHash r2 = None)"
  by (simp add: push_eval store_eval text_eval)

section \<open>Recovery keys (crypto.ts)\<close>

definition WORDLIST :: "jsstring list" where
  "WORDLIST = map js
    [
     ''apple'', ''armor'', ''arrow'', ''badge'', ''baker'', ''beach'', ''beast'', ''berry'',
     ''blade'', ''blank'', ''blaze'', ''blend'', ''bless'', ''block'', ''bloom'', ''board'',
     ''bonus'', ''boost'', ''bound'', ''brain'', ''brand'', ''brave'', ''bread'', ''break'',
     ''brick'', ''brief'', ''bring'', ''broad'', ''brook'', ''brush'', ''build'', ''burst'',
     ''cabin'', ''cable'', ''camel'', ''candy'', ''cargo'', ''carry'', ''catch'', ''cause'',
     ''chain'', ''chair'', ''chalk'', ''charm'', ''chase'', ''cheap'', ''check'', ''chess'',
     ''chief'', ''child'', ''chill'', ''claim'', ''clamp'', ''clash'', ''class'', ''clean'',
     ''clear'', ''clerk'', ''click'', ''cliff'', ''climb'', ''clock'', ''close'', ''cloth'',
     ''cloud'', ''coach'', ''coast'', ''coral'', ''couch'', ''cover'', ''craft'', ''crane'',
     ''crash'', ''crawl'', ''cream'', ''creek'', ''crisp'', ''cross'', ''crowd'', ''crown'',
     ''crush'', ''curve'', ''cycle'', ''dance'', ''delta'', ''depot'', ''depth'', ''diary'',
     ''digit'', ''dodge'', ''draft'', ''drain'', ''drama'', ''drank'', ''dream'', ''dress'',
     ''drift'', ''drill'', ''drink'', ''drive'', ''drown'', ''drums'', ''dusty'', ''dwarf'',
     ''eagle'', ''earth'', ''elbow'', ''elder'', ''elite'', ''ember'', ''empty'', ''enemy'',
     ''enjoy'', ''enter'', ''equal'', ''error'', ''essay'', ''event'', ''exact'', ''exile'',
     ''exist'', ''extra'', ''fable'', ''faith'', ''fancy'', ''fault'', ''feast'', ''fence'',
     ''fetch'', ''fever'', ''fiber'', ''field'', ''fifth'', ''fifty'', ''fight'', ''final'',
     ''flair'', ''flame'', ''flash'', ''fleet'', ''flesh'', ''fling'', ''float'', ''flock'',
     ''flood'', ''floor'', ''flour'', ''fluid'', ''flush'', ''flute'', ''focus'', ''force'',
     ''forge'', ''forth'', ''forum'', ''found'', ''frame'', ''frank'', ''fresh'', ''frost'',
     ''fruit'', ''fuels'', ''giant'', ''glass'', ''gleam'', ''glide'', ''globe'', ''glory'',
     ''grace'', ''grade'', ''grain'', ''grand'', ''grant'', ''grape'', ''grasp'', ''grass'',
     ''grave'', ''great'', ''green'', ''greet'', ''grief'', ''grill'', ''grind'', ''group'',
     ''grove'', ''guard'', ''guess'', ''guest'', ''guide'', ''guilt'', ''habit'', ''happy'',
     ''harsh'', ''haste'', ''haven'', ''heart'', ''heavy'', ''hedge'', ''heist'', ''hello'',
     ''honor'', ''horse'', ''hotel'', ''house'', ''human'', ''humor'', ''ideal'', ''image'',
     ''index'', ''inner'', ''input'', ''intro'', ''issue'', ''ivory'', ''jelly'', ''jewel'',
     ''joint'', ''joker'', ''jolly'', ''judge'', ''juice'', ''jumbo'', ''kayak'', ''khaki'',
     ''knife'', ''knock'', ''label'', ''labor'', ''lance'', ''large'', ''laser'', ''latch'',
     ''later'', ''laugh'', ''layer'', ''learn'', ''lease'', ''leave'', ''legal'', ''lemon'',
     ''level'', ''lever'', ''light'', ''limit'', ''linen'', ''links'', ''liver'', ''llama'',
     ''local'', ''lodge'', ''logic'', ''lunar'', ''lunch'', ''maker'', ''manor'', ''maple''
    ]"

record recovery_key =
  rk_words :: "jsstring list"
  rk_bytes :: bytes

text \<open>
  \<open>generateRecoveryKey\<close>, as a function of the eight bytes that \<open>generateRandomBytes(8)\<close>
  returned.
\<close>

definition generateRecoveryKey :: "bytes \<Rightarrow> recovery_key" where
  "generateRecoveryKey random =
     \<lparr>rk_words = map (\<lambda>byte. WORDLIST ! (unat byte mod length WORDLIST)) random,
      rk_bytes = random\<rparr>"

fun join :: "jsstring \<Rightarrow> jsstring list \<Rightarrow> jsstring" where
  "join sep [] = []"
| "join sep [x] = x"
| "join sep (x # y # ys) = x @ sep @ join sep (y # ys)"

text \<open>
  \<open>toUpperCase\<close> and \<open>toLowerCase\<close> are the platform's; they are parameters here. On
  the letters of ASCII they are the following maps, and they leave the other code units of
  ASCII alone.
\<close>

definition ascii_upper :: "16 word \<Rightarrow> 16 word" where
  "ascii_upper c = (if 0x61 \<le> c \<and> c \<le> 0x7A then c - 0x20 else c)"

definition ascii_lower :: "16 word \<Rightarrow> 16 word" where
  "ascii_lower c = (if 0x41 \<le> c \<and> c \<le> 0x5A then c + 0x20 else c)"

definition is_ascii :: "jsstring \<Rightarrow> bool" where
  "is_ascii s \<longleftrightarrow> list_all (\<lambda>c. c < 0x80) s"

definition upper_ok :: "(jsstring \<Rightarrow> jsstring) \<Rightarrow> bool" where
  "upper_ok toUpperCase \<longleftrightarrow> (\<forall>s. is_ascii s \<longrightarrow> toUpperCase s = map ascii_upper s)"

definition lower_ok :: "(jsstring \<Rightarrow> jsstring) \<Rightarrow> bool" where
  "lower_ok toLowerCase \<longleftrightarrow> (\<forall>s. is_ascii s \<longrightarrow> toLowerCase s = map ascii_lower s)"

definition formatRecoveryKey :: "(jsstring \<Rightarrow> jsstring) \<Rightarrow> recovery_key \<Rightarrow> jsstring" where
  "formatRecoveryKey toUpperCase recoveryKey = join (js ''-'') (map toUpperCase (rk_words recoveryKey))"

text \<open>
  \<open>split(/[-\s]+/)\<close>: the pieces between the maximal runs of hyphens and white space,
  the empty pieces at both ends included. \<open>\s\<close> is the white space and the line
  terminators of ECMAScript.
\<close>

definition is_separator :: "16 word \<Rightarrow> bool" where
  "is_separator c \<longleftrightarrow>
     c = 0x2D \<or> (0x09 \<le> c \<and> c \<le> 0x0D) \<or> c = 0x20 \<or> c = 0xA0 \<or> c = 0x1680 \<or>
     (0x2000 \<le> c \<and> c \<le> 0x200A) \<or> c = 0x2028 \<or> c = 0x2029 \<or> c = 0x202F \<or>
     c = 0x205F \<or> c = 0x3000 \<or> c = 0xFEFF"

fun split_from :: "jsstring \<Rightarrow> jsstring \<Rightarrow> jsstring list" where
  "split_from piece [] = [piece]"
| "split_from piece (c # cs) =
     (if is_separator c
      then (case cs of
              [] \<Rightarrow> [piece, []]
            | d # ds \<Rightarrow> if is_separator d then split_from piece cs else piece # split_from [] cs)
      else split_from (piece @ [c]) cs)"

definition split :: "jsstring \<Rightarrow> jsstring list" where
  "split s = split_from [] s"

fun indexOf :: "'a list \<Rightarrow> 'a \<Rightarrow> nat option" where
  "indexOf [] x = None"
| "indexOf (y # ys) x = (if y = x then Some 0 else map_option Suc (indexOf ys x))"

definition parseRecoveryKey :: "(jsstring \<Rightarrow> jsstring) \<Rightarrow> jsstring \<Rightarrow> recovery_key option" where
  "parseRecoveryKey toLowerCase wordsInput =
     (let words = filter (\<lambda>w. w \<noteq> []) (split (toLowerCase wordsInput)) in
      if length words \<noteq> 8 then None
      else
        let indices = map (indexOf WORDLIST) words in
        if None \<in> set indices then None
        else Some \<lparr>rk_words = words, rk_bytes = map (\<lambda>i. of_nat (the i)) indices\<rparr>)"

section \<open>The recovery key round trip\<close>

definition word_code :: "jsstring \<Rightarrow> nat" where
  "word_code w = foldl (\<lambda>a c. a * 128 + unat c) 0 w"

fun increasing :: "nat list \<Rightarrow> bool" where
  "increasing [] = True"
| "increasing [x] = True"
| "increasing (x # y # ys) = (x < y \<and> increasing (y # ys))"

lemma increasing_Cons: "increasing (x # xs) \<Longrightarrow> (\<forall>y \<in> set xs. x < y) \<and> increasing xs"
  by (induction xs arbitrary: x) (auto, fastforce+)

lemma increasing_distinct: "increasing xs \<Longrightarrow> distinct xs"
  by (induction xs) (auto dest: increasing_Cons)

lemma WORDLIST_increasing: "increasing (map word_code WORDLIST)"
  unfolding WORDLIST_def js_def word_code_def by simp

lemma WORDLIST_distinct: "distinct WORDLIST"
  using increasing_distinct [OF WORDLIST_increasing] by (simp add: distinct_map)

lemma WORDLIST_length: "length WORDLIST = 256"
  unfolding WORDLIST_def by simp

definition is_letters :: "jsstring \<Rightarrow> bool" where
  "is_letters w \<longleftrightarrow> w \<noteq> [] \<and> list_all (\<lambda>c. 0x61 \<le> c \<and> c \<le> 0x7A) w"

lemma WORDLIST_letters: "list_all is_letters WORDLIST"
  unfolding WORDLIST_def js_def is_letters_def by simp


lemma letter_upper_lower:
  assumes "0x61 \<le> c \<and> c \<le> (0x7A :: 16 word)"
  shows "ascii_lower (ascii_upper c) = c \<and> \<not> is_separator (ascii_upper c) \<and> ascii_upper c < 0x80
         \<and> \<not> is_separator c \<and> c < 0x80"
  using assms unfolding ascii_lower_def ascii_upper_def is_separator_def
  by (simp; unat_arith)

lemma letters_ascii: "is_letters w \<Longrightarrow> is_ascii w"
  using letter_upper_lower by (auto simp: is_letters_def is_ascii_def list_all_iff)

lemma letters_upper_ascii: "is_letters w \<Longrightarrow> is_ascii (map ascii_upper w)"
  using letter_upper_lower by (auto simp: is_letters_def is_ascii_def list_all_iff)

lemma letters_upper_lower: "is_letters w \<Longrightarrow> map ascii_lower (map ascii_upper w) = w"
  using letter_upper_lower by (auto simp: is_letters_def list_all_iff map_idI)

lemma letters_upper_plain:
  "is_letters w \<Longrightarrow> map ascii_upper w \<noteq> [] \<and> list_all (\<lambda>c. \<not> is_separator c) (map ascii_upper w)"
  using letter_upper_lower by (auto simp: is_letters_def list_all_iff)

lemma letters_plain:
  "is_letters w \<Longrightarrow> w \<noteq> [] \<and> list_all (\<lambda>c. \<not> is_separator c) w"
  using letter_upper_lower by (auto simp: is_letters_def list_all_iff)

lemma is_ascii_append [simp]: "is_ascii (a @ b) \<longleftrightarrow> is_ascii a \<and> is_ascii b"
  by (simp add: is_ascii_def)

lemma is_ascii_join: "is_ascii sep \<Longrightarrow> list_all is_ascii ws \<Longrightarrow> is_ascii (join sep ws)"
  by (induction sep ws rule: join.induct) (simp_all add: is_ascii_def)

lemma map_join: "map f (join sep ws) = join (map f sep) (map (map f) ws)"
  by (induction sep ws rule: join.induct) simp_all

lemma split_from_plain:
  "list_all (\<lambda>c. \<not> is_separator c) w \<Longrightarrow> split_from piece (w @ rest) = split_from (piece @ w) rest"
  by (induction w arbitrary: piece) simp_all

lemma split_from_join:
  assumes "ws \<noteq> []" and "list_all (\<lambda>w. w \<noteq> [] \<and> list_all (\<lambda>c. \<not> is_separator c) w) ws"
  shows "split_from piece (join [0x2D] ws) = (piece @ hd ws) # tl ws"
  using assms
proof (induction "[0x2D :: 16 word]" ws arbitrary: piece rule: join.induct)
  case 1
  then show ?case by simp
next
  case (2 x)
  then show ?case using split_from_plain [of x piece "[]"] by simp
next
  case (3 x y ys)
  from 3(3) obtain d ds where y: "y = d # ds" and d: "\<not> is_separator d"
    by (cases y) auto
  obtain r where j: "join [0x2D] (y # ys) = d # r"
    by (cases ys) (simp_all add: y)
  have hyphen: "is_separator 0x2D"
    by (simp add: is_separator_def)
  have "split_from piece (join [0x2D] (x # y # ys))
      = split_from (piece @ x) (0x2D # join [0x2D] (y # ys))"
    using 3(3) split_from_plain [of x piece "0x2D # join [0x2D] (y # ys)"] by simp
  also have "\<dots> = (piece @ x) # split_from [] (join [0x2D] (y # ys))"
    using d hyphen by (simp add: j)
  also have "split_from [] (join [0x2D] (y # ys)) = y # ys"
    using 3(1) [of "[]"] 3(3) by simp
  finally show ?case by simp
qed

lemma split_join:
  assumes "ws \<noteq> []" and "list_all (\<lambda>w. w \<noteq> [] \<and> list_all (\<lambda>c. \<not> is_separator c) w) ws"
  shows "split (join [0x2D] ws) = ws"
  using split_from_join [OF assms, of "[]"] assms(1) by (simp add: split_def)

lemma indexOf_nth: "distinct xs \<Longrightarrow> i < length xs \<Longrightarrow> indexOf xs (xs ! i) = Some i"
proof (induction xs arbitrary: i)
  case Nil
  then show ?case by simp
next
  case (Cons x xs)
  then show ?case by (cases i) auto
qed


text \<open>
  C9. For every recovery key that \<open>generateRecoveryKey\<close> produces (from any eight random
  bytes), parsing its displayed form gives the key back: \<open>parseRecoveryKey\<close> of
  \<open>formatRecoveryKey\<close> returns the same eight words and the same eight bytes. The
  platform's case conversions enter through their behaviour on ASCII only.
\<close>

theorem recovery_key_round_trip:
  assumes up: "upper_ok toUpperCase" and lo: "lower_ok toLowerCase" and len: "length random = 8"
  shows "parseRecoveryKey toLowerCase
           (formatRecoveryKey toUpperCase (generateRecoveryKey random))
         = Some (generateRecoveryKey random)"
proof -
  define ws where "ws = map (\<lambda>byte. WORDLIST ! (unat byte mod length WORDLIST)) random"
  have idx: "unat b mod length WORDLIST = unat b" "unat b < length WORDLIST" for b :: u8
  proof -
    have "unat b < 2 ^ LENGTH(8)" by (rule unsigned_less)
    then show "unat b mod length WORDLIST = unat b" "unat b < length WORDLIST"
      by (simp_all add: WORDLIST_length)
  qed
  have letters: "list_all is_letters ws"
    using WORDLIST_letters idx(2) by (auto simp: ws_def list_all_iff idx(1))
  have mu: "map toUpperCase ws = map (map ascii_upper) ws"
    using letters up by (auto simp: upper_ok_def list_all_iff letters_ascii)
  have "formatRecoveryKey toUpperCase (generateRecoveryKey random)
      = join [0x2D] (map toUpperCase ws)"
    by (simp add: formatRecoveryKey_def generateRecoveryKey_def js_def flip: ws_def)
  then have fmt: "formatRecoveryKey toUpperCase (generateRecoveryKey random)
      = join [0x2D] (map (map ascii_upper) ws)"
    by (simp only: mu)
  have "is_ascii (join [0x2D] (map (map ascii_upper) ws))"
    using letters by (intro is_ascii_join) (auto simp: is_ascii_def list_all_iff dest!: letters_upper_ascii)
  then have "toLowerCase (join [0x2D] (map (map ascii_upper) ws))
      = map ascii_lower (join [0x2D] (map (map ascii_upper) ws))"
    using lo by (simp add: lower_ok_def)
  also have "\<dots> = join [0x2D] (map (\<lambda>w. map ascii_lower (map ascii_upper w)) ws)"
    by (simp add: map_join ascii_lower_def comp_def)
  also have "map (\<lambda>w. map ascii_lower (map ascii_upper w)) ws = ws"
  proof (rule map_idI)
    fix w assume "w \<in> set ws"
    with letters have "is_letters w" by (simp add: list_all_iff)
    then show "map ascii_lower (map ascii_upper w) = w" by (rule letters_upper_lower)
  qed
  finally have low: "toLowerCase (join [0x2D] (map (map ascii_upper) ws)) = join [0x2D] ws" .
  have ne: "ws \<noteq> []" and l8: "length ws = 8"
    using len by (auto simp: ws_def)
  have plain: "list_all (\<lambda>w. w \<noteq> [] \<and> list_all (\<lambda>c. \<not> is_separator c) w) ws"
    using letters by (auto simp: list_all_iff dest!: letters_plain)
  have sp: "split (join [0x2D] ws) = ws"
    using ne plain by (rule split_join)
  have fl: "filter (\<lambda>w. w \<noteq> []) ws = ws"
    using plain by (auto simp: list_all_iff filter_id_conv)
  have ind: "map (indexOf WORDLIST) ws = map (\<lambda>b. Some (unat b)) random"
    by (simp add: ws_def idx indexOf_nth [OF WORDLIST_distinct])
  have bts: "map (\<lambda>i. of_nat (the i)) (map (\<lambda>b. Some (unat b)) random) = random"
    by (simp add: comp_def)
  show ?thesis
    unfolding parseRecoveryKey_def fmt low sp fl Let_def ind bts
    using l8 by (auto simp: generateRecoveryKey_def ws_def)
qed

theorem recovery_key_round_trip_witness:
  "upper_ok (map ascii_upper) \<and> lower_ok (map ascii_lower) \<and>
   length [0, 255, 17, 3, 3, 200, 100, 7 :: u8] = 8 \<and>
   formatRecoveryKey (map ascii_upper) (generateRecoveryKey [0, 255, 17, 3, 3, 200, 100, 7])
     = js ''APPLE-MAPLE-BOOST-BADGE-BADGE-HONOR-DROWN-BERRY'' \<and>
   parseRecoveryKey (map ascii_lower) (js ''APPLE-MAPLE-BOOST-BADGE-BADGE-HONOR-DROWN-BERRY'')
     = Some \<lparr>rk_words = map js [''apple'', ''maple'', ''boost'', ''badge'', ''badge'', ''honor'',
                                  ''drown'', ''berry''],
             rk_bytes = [0, 255, 17, 3, 3, 200, 100, 7]\<rparr>"
proof -
  have u: "upper_ok (map ascii_upper)" and l: "lower_ok (map ascii_lower)"
    by (simp_all add: upper_ok_def lower_ok_def)
  have n: "length [0, 255, 17, 3, 3, 200, 100, 7 :: u8] = 8"
    by simp
  have g: "generateRecoveryKey [0, 255, 17, 3, 3, 200, 100, 7]
     = \<lparr>rk_words = map js [''apple'', ''maple'', ''boost'', ''badge'', ''badge'', ''honor'',
                           ''drown'', ''berry''],
        rk_bytes = [0, 255, 17, 3, 3, 200, 100, 7]\<rparr>"
    by (simp add: generateRecoveryKey_def WORDLIST_def)
  have f: "formatRecoveryKey (map ascii_upper)
       \<lparr>rk_words = map js [''apple'', ''maple'', ''boost'', ''badge'', ''badge'', ''honor'',
                             ''drown'', ''berry''],
          rk_bytes = [0, 255, 17, 3, 3, 200, 100, 7]\<rparr>
     = js ''APPLE-MAPLE-BOOST-BADGE-BADGE-HONOR-DROWN-BERRY''"
    by (simp add: formatRecoveryKey_def js_def ascii_upper_def)
  show ?thesis
    using recovery_key_round_trip [OF u l n] u l n
    unfolding g f by simp
qed

end
